theory Spec2Isabelle
  imports Main "HOL-Library.Word"
begin

unbundle bit_operations_syntax

section \<open>User events: a model of kernel/trace/trace\_events\_user.c\<close>

text \<open>
  The development follows the source file function by function.  C integers of type
  \<^verbatim>\<open>int\<close> are HOL integers kept inside the 32-bit two's complement range by
  \<open>wrap_s32\<close> wherever the C code can leave it; \<^verbatim>\<open>u32\<close> values are
  \<^typ>\<open>32 word\<close>.  C strings are \<^typ>\<open>string\<close> values (the bytes before
  the terminating NUL), a NULL string pointer is \<open>None\<close>.  Error returns are the negated
  errno numbers, as in the kernel.
\<close>

subsection \<open>Error numbers and limits\<close>

definition EPERM :: int where "EPERM = 1"
definition ENOENT :: int where "ENOENT = 2"
definition E2BIG :: int where "E2BIG = 7"
definition ENOMEM :: int where "ENOMEM = 12"
definition EFAULT :: int where "EFAULT = 14"
definition EBUSY :: int where "EBUSY = 16"
definition ENODEV :: int where "ENODEV = 19"
definition EINVAL :: int where "EINVAL = 22"
definition EMFILE :: int where "EMFILE = 24"
definition ERANGE :: int where "ERANGE = 34"

definition MAX_FIELD_ARRAY_SIZE :: int where "MAX_FIELD_ARRAY_SIZE = 1024"

definition FIELD_DEPTH_TYPE :: nat where "FIELD_DEPTH_TYPE = 0"
definition FIELD_DEPTH_NAME :: nat where "FIELD_DEPTH_NAME = 1"
definition FIELD_DEPTH_SIZE :: nat where "FIELD_DEPTH_SIZE = 2"

definition VALIDATOR_ENSURE_NULL :: nat where "VALIDATOR_ENSURE_NULL = 1"
definition VALIDATOR_REL :: nat where "VALIDATOR_REL = 2"

definition EVENT_STATUS_FTRACE :: "8 word" where "EVENT_STATUS_FTRACE = 1"
definition EVENT_STATUS_PERF :: "8 word" where "EVENT_STATUS_PERF = 2"
definition EVENT_STATUS_OTHER :: "8 word" where "EVENT_STATUS_OTHER = 128"

text \<open>The value of a C \<^verbatim>\<open>int\<close> after an arithmetic result is stored into it.\<close>

definition wrap_s32 :: "int \<Rightarrow> int" where
  "wrap_s32 x = sint (word_of_int x :: 32 word)"

subsection \<open>String helpers of the kernel library\<close>

text \<open>
  The helpers of lib/string.c, lib/ctype.c and lib/kstrtox.c that the parser calls are
  not part of the file; they are written here after their kernel definitions.
\<close>

definition isspace :: "char \<Rightarrow> bool" where
  "isspace c = (let n = (of_char c :: nat) in (9 \<le> n \<and> n \<le> 13) \<or> n = 32 \<or> n = 160)"

fun skip_spaces :: "string \<Rightarrow> string" where
  "skip_spaces [] = []"
| "skip_spaces (c # cs) = (if isspace c then skip_spaces cs else c # cs)"

text \<open>\<open>str_has_prefix\<close> returns the length of the prefix when the string starts with it, else 0.\<close>

definition str_has_prefix :: "string \<Rightarrow> string \<Rightarrow> nat" where
  "str_has_prefix str pfx = (if take (length pfx) str = pfx then length pfx else 0)"

text \<open>\<open>strchr\<close>: the suffix starting at the first occurrence of the character.\<close>

fun strchr :: "string \<Rightarrow> char \<Rightarrow> string option" where
  "strchr [] d = None"
| "strchr (c # cs) d = (if c = d then Some (c # cs) else strchr cs d)"

text \<open>\<open>strstr\<close>: the suffix starting at the first occurrence of the substring.\<close>

fun strstr :: "string \<Rightarrow> string \<Rightarrow> string option" where
  "strstr [] sub = (if sub = [] then Some [] else None)"
| "strstr (c # cs) sub =
     (if take (length sub) (c # cs) = sub then Some (c # cs) else strstr cs sub)"

text \<open>
  \<open>strsep\<close> cuts the string at the first delimiter: it returns the token before it and
  the new value of the string pointer (\<open>None\<close> when no delimiter was left).
\<close>

fun strsep :: "string \<Rightarrow> char \<Rightarrow> string \<times> string option" where
  "strsep [] d = ([], None)"
| "strsep (c # cs) d =
     (if c = d then ([], Some cs)
      else (case strsep cs d of (tok, rest) \<Rightarrow> (c # tok, rest)))"

text \<open>The tokens that successive calls of \<open>strsep\<close> return until the pointer is NULL.\<close>

fun strsep_all :: "string \<Rightarrow> char \<Rightarrow> string list" where
  "strsep_all [] d = [[]]"
| "strsep_all (c # cs) d =
     (if c = d then [] # strsep_all cs d
      else (case strsep_all cs d of [] \<Rightarrow> [[c]] | tok # toks \<Rightarrow> (c # tok) # toks))"

text \<open>
  \<open>strscpy dest src count\<close> copies at most \<open>count - 1\<close> characters; it returns the
  number of characters copied, or \<open>-E2BIG\<close> when the source did not fit.  The model
  returns the return value and the destination's new content.
\<close>

definition strscpy :: "string \<Rightarrow> nat \<Rightarrow> int \<times> string" where
  "strscpy src count =
     (if count = 0 then (- E2BIG, [])
      else if length src < count then (int (length src), src)
      else (- E2BIG, take (count - 1) src))"

text \<open>The character at an index of a C string; the terminating NUL at its end.\<close>

definition char_at :: "string \<Rightarrow> nat \<Rightarrow> char" where
  "char_at s i = (if i < length s then s ! i else CHR 0x00)"

definition lower_case :: "char \<Rightarrow> char" where
  "lower_case c = char_of ((of_char c :: nat) OR 0x20)"

text \<open>The value of a digit in bases up to 16, as \<open>_parse_integer\<close> reads it.\<close>

definition digit_val :: "char \<Rightarrow> nat option" where
  "digit_val c =
     (let n = (of_char c :: nat); lc = (of_char (lower_case c) :: nat) in
      if 48 \<le> n \<and> n \<le> 57 then Some (n - 48)
      else if 97 \<le> lc \<and> lc \<le> 102 then Some (lc - 97 + 10)
      else None)"

definition isxdigit :: "char \<Rightarrow> bool" where
  "isxdigit c = (digit_val c \<noteq> None)"

text \<open>
  \<open>_parse_integer_fixup_radix\<close>: base 0 selects 16 after \<^verbatim>\<open>0x\<close> and a hex digit,
  8 after a leading \<^verbatim>\<open>0\<close>, else 10; a \<^verbatim>\<open>0x\<close> prefix is skipped in base 16.
\<close>

definition parse_integer_fixup_radix :: "string \<Rightarrow> nat \<Rightarrow> string \<times> nat" where
  "parse_integer_fixup_radix s base =
     (let base' =
        (if base = 0 then
           (if char_at s 0 = CHR ''0'' then
              (if lower_case (char_at s 1) = CHR ''x'' \<and> isxdigit (char_at s 2) then 16 else 8)
            else 10)
         else base)
      in if base' = 16 \<and> char_at s 0 = CHR ''0'' \<and> lower_case (char_at s 1) = CHR ''x''
         then (drop 2 s, base') else (s, base'))"

text \<open>
  \<open>_parse_integer\<close>: accumulates digits below the base in an unsigned 64-bit value;
  the result is the value, the number of characters read and the overflow flag.
\<close>

fun parse_integer :: "string \<Rightarrow> int \<Rightarrow> int \<Rightarrow> nat \<Rightarrow> bool \<Rightarrow> int \<times> nat \<times> bool" where
  "parse_integer [] base res rv ovf = (res, rv, ovf)"
| "parse_integer (c # cs) base res rv ovf =
     (case digit_val c of
        None \<Rightarrow> (res, rv, ovf)
      | Some v \<Rightarrow>
          if int v \<ge> base then (res, rv, ovf)
          else parse_integer cs base ((res * base + int v) mod 18446744073709551616) (Suc rv)
                 (ovf \<or> (res \<ge> 1152921504606846976 \<and>
                         res > (18446744073709551615 - int v) div base)))"

text \<open>\<open>kstrtoull\<close>: a whole string as an unsigned 64-bit number, or an error.\<close>

definition kstrtoull :: "string \<Rightarrow> nat \<Rightarrow> int + int" where
  "kstrtoull s0 base0 =
     (let s1 = (if char_at s0 0 = CHR ''+'' then drop 1 s0 else s0) in
      case parse_integer_fixup_radix s1 base0 of (s, base) \<Rightarrow>
      case parse_integer s (int base) 0 0 False of (res, rv, ovf) \<Rightarrow>
        if ovf then Inl (- ERANGE)
        else if rv = 0 then Inl (- EINVAL)
        else (let t = drop rv s; t' = (if char_at t 0 = CHR 0x0A then drop 1 t else t) in
              if t' \<noteq> [] then Inl (- EINVAL) else Inr res))"

text \<open>\<open>kstrtouint\<close> (and \<open>kstrtou32\<close>, the same function): the value must fit 32 bits.\<close>

definition kstrtouint :: "string \<Rightarrow> nat \<Rightarrow> int + 32 word" where
  "kstrtouint s base =
     (case kstrtoull s base of
        Inl e \<Rightarrow> Inl e
      | Inr v \<Rightarrow> if v \<ge> 4294967296 then Inl (- ERANGE) else Inr (word_of_int v))"

subsection \<open>Field sizes\<close>

definition user_field_array_size :: "string \<Rightarrow> int" where
  "user_field_array_size type =
     (case strchr type CHR ''['' of
        None \<Rightarrow> - EINVAL
      | Some start \<Rightarrow>
          (case strscpy (tl start) 8 of (n, val) \<Rightarrow>
             if n \<le> 0 then - EINVAL
             else (case strsep val CHR '']'' of
                     (_, None) \<Rightarrow> - EINVAL
                   | (num, Some _) \<Rightarrow>
                       (case kstrtouint num 0 of
                          Inl _ \<Rightarrow> - EINVAL
                        | Inr v \<Rightarrow>
                            if sint v > MAX_FIELD_ARRAY_SIZE then - EINVAL else sint v))))"

definition user_field_size :: "string \<Rightarrow> int" where
  "user_field_size type =
     (if type = ''s64'' then 8
      else if type = ''u64'' then 8
      else if type = ''s32'' then 4
      else if type = ''u32'' then 4
      else if type = ''int'' then 4
      else if type = ''unsigned int'' then 4
      else if type = ''s16'' then 2
      else if type = ''u16'' then 2
      else if type = ''short'' then 2
      else if type = ''unsigned short'' then 2
      else if type = ''s8'' then 1
      else if type = ''u8'' then 1
      else if type = ''char'' then 1
      else if type = ''unsigned char'' then 1
      else if str_has_prefix type ''char['' \<noteq> 0 then user_field_array_size type
      else if str_has_prefix type ''unsigned char['' \<noteq> 0 then user_field_array_size type
      else if str_has_prefix type ''__data_loc '' \<noteq> 0 then 4
      else if str_has_prefix type ''__rel_loc '' \<noteq> 0 then 4
      else - EINVAL)"

subsection \<open>Data model\<close>

text \<open>
  Kernel allocations: \<open>live\<close> counts the objects handed out by \<open>kmalloc\<close> and
  not yet given back to \<open>kfree\<close>; \<open>plan\<close> lists the outcomes of the allocation
  requests to come (\<open>False\<close>: the request fails), every request after the end of the
  list succeeds.
\<close>

record kmem =
  live :: int
  plan :: "bool list"

definition kmalloc :: "kmem \<Rightarrow> bool \<times> kmem" where
  "kmalloc km =
     (case plan km of
        [] \<Rightarrow> (True, km\<lparr>live := live km + 1\<rparr>)
      | ok # rest \<Rightarrow> (ok, km\<lparr>live := (if ok then live km + 1 else live km), plan := rest\<rparr>))"

definition kfree :: "kmem \<Rightarrow> kmem" where
  "kfree km = km\<lparr>live := live km - 1\<rparr>"

datatype filter_type = FILTER_OTHER | FILTER_STATIC_STRING | FILTER_DYN_STRING

record ftrace_event_field =
  f_type :: string
  f_name :: string
  f_offset :: int
  f_size :: int
  f_is_signed :: bool
  f_filter_type :: filter_type

record user_event_validator =
  v_offset :: int
  v_flags :: nat

text \<open>
  A trace file as the ftrace probe sees it: whether it is enabled, whether its triggers
  soft-disable it, and whether the ring buffer grants the next reservation.
\<close>

record trace_event_file =
  file_enabled :: bool
  file_soft_disabled :: bool
  file_reserve_ok :: bool

datatype probe_func = Probe_ftrace | Probe_perf | Probe_other

record tracepoint_func =
  func :: probe_func
  data :: "trace_event_file option"

text \<open>
  \<open>fields'\<close> is the kernel list \<^verbatim>\<open>fields\<close> read from its head (\<open>list_add\<close> inserts there, so the
  field added last comes first); \<open>validators\<close> is in insertion order
  (\<open>list_add_tail\<close>).  \<open>key_enabled\<close> and \<open>funcs\<close> are the tracepoint's static-key
  count and probe array (\<open>[]\<close> for NULL); \<open>perf_events\<close> says whether this CPU's list
  of perf events is non-empty.
\<close>

record user_event =
  name :: string
  fields' :: "ftrace_event_field list"
  validators :: "user_event_validator list"
  refcnt :: nat
  min_size :: int
  status :: "8 word"
  print_fmt :: "string option"
  key_enabled :: int
  funcs :: "tracepoint_func list"
  perf_events :: bool

subsection \<open>Parsing the field list\<close>

text \<open>
  \<open>hdr\<close> is \<^verbatim>\<open>sizeof(struct trace_entry)\<close>, the size of the fixed record header;
  the structure is declared outside the file, so its size is a parameter.
\<close>

definition user_event_add_field ::
  "nat \<Rightarrow> user_event \<Rightarrow> string \<Rightarrow> string \<Rightarrow> int \<Rightarrow> int \<Rightarrow> bool \<Rightarrow> filter_type \<Rightarrow> kmem
   \<Rightarrow> int \<times> user_event \<times> kmem" where
  "user_event_add_field hdr user type fname offset sz is_signed ftype km =
     (let add_field = (\<lambda>u k.
            (0, u\<lparr>fields' := \<lparr>f_type = type, f_name = fname, f_offset = offset, f_size = sz,
                               f_is_signed = is_signed, f_filter_type = ftype\<rparr> # fields' u,
                    min_size := wrap_s32 (offset + sz - int hdr)\<rparr>, k));
          add_validator = (\<lambda>flags0 k.
            (let flags = (if strstr type ''char'' = None then flags0
                          else flags0 OR VALIDATOR_ENSURE_NULL) in
             case kmalloc k of
               (False, k') \<Rightarrow> (- ENOMEM, user, kfree k')
             | (True, k') \<Rightarrow>
                 add_field (user\<lparr>validators := validators user @
                                   [\<lparr>v_offset = offset, v_flags = flags\<rparr>]\<rparr>) k'))
      in case kmalloc km of
           (False, km1) \<Rightarrow> (- ENOMEM, user, km1)
         | (True, km1) \<Rightarrow>
             if str_has_prefix type ''__data_loc '' \<noteq> 0 then add_validator 0 km1
             else if str_has_prefix type ''__rel_loc '' \<noteq> 0 then add_validator VALIDATOR_REL km1
             else add_field user km1)"

fun strpbrk :: "string \<Rightarrow> string \<Rightarrow> string option" where
  "strpbrk [] accept = None"
| "strpbrk (c # cs) accept = (if c \<in> set accept then Some (c # cs) else strpbrk cs accept)"

text \<open>
  The chain of \<open>str_has_prefix\<close> tests for types with a space inside: the length of the
  matched prefix (0 when none matches) and whether it was \<^verbatim>\<open>struct\<close>.
\<close>

definition field_type_prefix :: "string \<Rightarrow> nat \<times> bool" where
  "field_type_prefix field =
     (if str_has_prefix field ''unsigned '' \<noteq> 0 then (str_has_prefix field ''unsigned '', False)
      else if str_has_prefix field ''struct '' \<noteq> 0 then (str_has_prefix field ''struct '', True)
      else if str_has_prefix field ''__data_loc unsigned '' \<noteq> 0
        then (str_has_prefix field ''__data_loc unsigned '', False)
      else if str_has_prefix field ''__data_loc '' \<noteq> 0
        then (str_has_prefix field ''__data_loc '', False)
      else if str_has_prefix field ''__rel_loc unsigned '' \<noteq> 0
        then (str_has_prefix field ''__rel_loc unsigned '', False)
      else if str_has_prefix field ''__rel_loc '' \<noteq> 0
        then (str_has_prefix field ''__rel_loc '', False)
      else (0, False))"

text \<open>
  The \<open>strsep\<close> loop over the space-separated parts of a field.  The state is the depth
  counter, the type, the name (\<open>None\<close> for NULL) and the sz; an early return of the
  loop is \<open>Inl\<close>.
\<close>

fun parse_field_parts ::
  "string list \<Rightarrow> bool \<Rightarrow> nat \<Rightarrow> string \<Rightarrow> string option \<Rightarrow> int
   \<Rightarrow> int + (nat \<times> string \<times> string option \<times> int)" where
  "parse_field_parts [] is_struct depth type fname sz = Inr (depth, type, fname, sz)"
| "parse_field_parts (part # parts) is_struct depth type fname sz =
     (if depth = FIELD_DEPTH_TYPE then
        parse_field_parts parts is_struct (Suc depth) part fname sz
      else if depth = FIELD_DEPTH_NAME then
        parse_field_parts parts is_struct (Suc depth) type (Some part) sz
      else if depth = FIELD_DEPTH_SIZE then
        (if is_struct then
           (case kstrtouint part 10 of
              Inl _ \<Rightarrow> Inl (- EINVAL)
            | Inr v \<Rightarrow> parse_field_parts parts is_struct (Suc depth) type fname (sint v))
         else Inl (- EINVAL))
      else Inl (- EINVAL))"

text \<open>
  What the first half of \<open>user_event_parse_field\<close> makes of a field: nothing (the
  field is empty), a type with a space inside and no separator after it, an early
  return of the loop, or the depth reached with the type, the name and the size read.
\<close>

datatype tokens =
  Empty_field
| No_separator
| Early_return int
| Tokens nat string "string option" int

definition loop_tokens :: "string \<Rightarrow> bool \<Rightarrow> nat \<Rightarrow> string \<Rightarrow> tokens" where
  "loop_tokens field is_struct depth0 type0 =
     (case parse_field_parts (strsep_all field CHR '' '') is_struct depth0 type0 None (- EINVAL) of
        Inl e \<Rightarrow> Early_return e
      | Inr (depth, type, fname, sz) \<Rightarrow> Tokens depth type fname sz)"

definition field_tokens :: "string \<Rightarrow> tokens" where
  "field_tokens field0 =
     (let field = skip_spaces field0 in
      if field = [] then Empty_field
      else
        (case field_type_prefix field of
           (len, is_struct) \<Rightarrow>
             if len \<noteq> 0 then
               (case strpbrk (drop len field) '' '' of
                  None \<Rightarrow> No_separator
                | Some sp \<Rightarrow>
                    loop_tokens (tl sp) is_struct 1 (take (length field - length sp) field))
             else loop_tokens field False 0 []))"

definition user_event_parse_field ::
  "nat \<Rightarrow> string \<Rightarrow> user_event \<Rightarrow> 32 word \<Rightarrow> kmem \<Rightarrow> int \<times> user_event \<times> 32 word \<times> kmem" where
  "user_event_parse_field hdr field user saved_offset km =
     (case field_tokens field of
        Empty_field \<Rightarrow> (0, user, saved_offset, km)
      | No_separator \<Rightarrow> (- EINVAL, user, saved_offset, km)
      | Early_return e \<Rightarrow> (e, user, saved_offset, km)
      | Tokens depth type fname sz0 \<Rightarrow>
          (case fname of
             None \<Rightarrow> (- EINVAL, user, saved_offset, km)
           | Some nm \<Rightarrow>
               if depth < FIELD_DEPTH_SIZE then (- EINVAL, user, saved_offset, km)
               else
                 (let sz = (if depth = FIELD_DEPTH_SIZE then user_field_size type else sz0) in
                  if sz = 0 then (- EINVAL, user, saved_offset, km)
                  else if sz < 0 then (sz, user, saved_offset, km)
                  else
                    (case user_event_add_field hdr user type nm (sint saved_offset) sz
                            (char_at type 0 \<noteq> CHR ''u'') FILTER_OTHER km of
                       (ret, user', km') \<Rightarrow>
                         (ret, user', saved_offset + word_of_int sz, km')))))"

text \<open>The loop of \<open>user_event_parse_fields\<close> over the fields that \<open>strsep\<close> cuts at \<^verbatim>\<open>;\<close>.\<close>

fun parse_fields_loop ::
  "nat \<Rightarrow> string list \<Rightarrow> user_event \<Rightarrow> 32 word \<Rightarrow> kmem \<Rightarrow> int \<Rightarrow> int \<times> user_event \<times> kmem" where
  "parse_fields_loop hdr [] user offset km ret = (ret, user, km)"
| "parse_fields_loop hdr (field # rest) user offset km ret =
     (case user_event_parse_field hdr field user offset km of
        (ret', user', offset', km') \<Rightarrow>
          if ret' \<noteq> 0 then (ret', user', km')
          else parse_fields_loop hdr rest user' offset' km' ret')"

definition user_event_parse_fields ::
  "nat \<Rightarrow> user_event \<Rightarrow> string option \<Rightarrow> kmem \<Rightarrow> int \<times> user_event \<times> kmem" where
  "user_event_parse_fields hdr user args km =
     (case args of
        None \<Rightarrow> (0, user, km)
      | Some a \<Rightarrow>
          parse_fields_loop hdr (strsep_all a CHR '';'') user (of_nat hdr) km (- EINVAL))"

subsection \<open>The output format\<close>

definition user_field_format :: "string \<Rightarrow> string" where
  "user_field_format type =
     (if type = ''s64'' then ''%lld''
      else if type = ''u64'' then ''%llu''
      else if type = ''s32'' then ''%d''
      else if type = ''u32'' then ''%u''
      else if type = ''int'' then ''%d''
      else if type = ''unsigned int'' then ''%u''
      else if type = ''s16'' then ''%d''
      else if type = ''u16'' then ''%u''
      else if type = ''short'' then ''%d''
      else if type = ''unsigned short'' then ''%u''
      else if type = ''s8'' then ''%d''
      else if type = ''u8'' then ''%u''
      else if type = ''char'' then ''%d''
      else if type = ''unsigned char'' then ''%u''
      else if strstr type ''char['' = None then ''%llu''
      else ''%s'')"

text \<open>\<open>user_field_is_dyn_string\<close>: the accessor name when the field is a dynamic string.\<close>

definition user_field_is_dyn_string :: "string \<Rightarrow> string option" where
  "user_field_is_dyn_string type =
     (if str_has_prefix type ''__data_loc '' \<noteq> 0 then
        (if strstr type ''char'' = None then None else Some ''__get_str'')
      else if str_has_prefix type ''__rel_loc '' \<noteq> 0 then
        (if strstr type ''char'' = None then None else Some ''__get_rel_str'')
      else None)"

fun print_fmt_names :: "ftrace_event_field list \<Rightarrow> nat \<Rightarrow> string" where
  "print_fmt_names [] depth = []"
| "print_fmt_names (f # fs) depth =
     (if depth = 0 then [] else '' '') @ f_name f @ ''='' @ user_field_format (f_type f)
       @ print_fmt_names fs (Suc depth)"

fun print_fmt_args :: "ftrace_event_field list \<Rightarrow> string" where
  "print_fmt_args [] = []"
| "print_fmt_args (f # fs) =
     (case user_field_is_dyn_string (f_type f) of
        Some str_func \<Rightarrow> '', '' @ str_func @ ''('' @ f_name f @ '')''
      | None \<Rightarrow> '', REC->'' @ f_name f) @ print_fmt_args fs"

text \<open>The text that \<open>user_event_set_print_fmt\<close> writes; both loops walk the list in reverse.\<close>

definition user_event_set_print_fmt :: "user_event \<Rightarrow> string" where
  "user_event_set_print_fmt user =
     [CHR 0x22] @ print_fmt_names (rev (fields' user)) 0 @ [CHR 0x22]
       @ print_fmt_args (rev (fields' user))"

definition user_event_create_print_fmt :: "user_event \<Rightarrow> kmem \<Rightarrow> int \<times> user_event \<times> kmem" where
  "user_event_create_print_fmt user km =
     (case kmalloc km of
        (False, km') \<Rightarrow> (- ENOMEM, user, km')
      | (True, km') \<Rightarrow> (0, user\<lparr>print_fmt := Some (user_event_set_print_fmt user)\<rparr>, km'))"

subsection \<open>The registry\<close>

text \<open>
  The state of the event group and of the tracing core around it.  An event is
  identified by its name, which is unique in the table; \<open>register_table\<close> holds the
  event objects, newest first.  \<open>dyn_events\<close>, \<open>event_calls\<close> and \<open>trace_events\<close>
  are the names known to the dynamic-event list, to the event directory
  (\<open>trace_add_event_call\<close>) and to the output layer (\<open>register_trace_event\<close>).
  The last four components are the outcomes of calls into the tracing core that the
  file cannot influence.
\<close>

record system =
  register_table :: "user_event list"
  current_user_events :: "32 word"
  max_user_events :: "32 word"
  dyn_events :: "string list"
  event_calls :: "string list"
  trace_events :: "string list"
  kmem :: kmem
  register_trace_event_ret :: int
  prepare_creds_ok :: bool
  trace_add_event_call_ret :: int
  trace_remove_event_call_ret :: int

text \<open>The value that \<open>max_user_events\<close> is initialised with.\<close>

definition initial_max_user_events :: "32 word" where
  "initial_max_user_events = 32768"

fun lookup_event :: "user_event list \<Rightarrow> string \<Rightarrow> user_event option" where
  "lookup_event [] n = None"
| "lookup_event (u # us) n = (if name u = n then Some u else lookup_event us n)"

fun update_event :: "string \<Rightarrow> (user_event \<Rightarrow> user_event) \<Rightarrow> user_event list \<Rightarrow> user_event list" where
  "update_event n f [] = []"
| "update_event n f (u # us) = (if name u = n then f u # us else u # update_event n f us)"

fun hash_del :: "string \<Rightarrow> user_event list \<Rightarrow> user_event list" where
  "hash_del n [] = []"
| "hash_del n (u # us) = (if name u = n then us else u # hash_del n us)"

text \<open>Reference counts away from saturation: plain increments and decrements.\<close>

definition refcount_inc :: "user_event \<Rightarrow> user_event" where
  "refcount_inc u = u\<lparr>refcnt := refcnt u + 1\<rparr>"

definition refcount_dec :: "user_event \<Rightarrow> user_event" where
  "refcount_dec u = u\<lparr>refcnt := refcnt u - 1\<rparr>"

definition user_event_last_ref :: "user_event \<Rightarrow> bool" where
  "user_event_last_ref user = (refcnt user = 1)"

text \<open>\<open>find_user_event\<close>: the table after the reference was taken, \<open>None\<close> for NULL.\<close>

definition find_user_event :: "user_event list \<Rightarrow> string \<Rightarrow> user_event list option" where
  "find_user_event table n =
     (case lookup_event table n of
        None \<Rightarrow> None
      | Some _ \<Rightarrow> Some (update_event n refcount_inc table))"

fun kfree_many :: "nat \<Rightarrow> kmem \<Rightarrow> kmem" where
  "kfree_many 0 km = km"
| "kfree_many (Suc n) km = kfree_many n (kfree km)"

text \<open>\<open>kfree\<close> of a pointer that may be NULL.\<close>

definition kfree_opt :: "'a option \<Rightarrow> kmem \<Rightarrow> kmem" where
  "kfree_opt p km = (case p of None \<Rightarrow> km | Some _ \<Rightarrow> kfree km)"

definition user_event_destroy_validators :: "user_event \<Rightarrow> kmem \<Rightarrow> user_event \<times> kmem" where
  "user_event_destroy_validators user km =
     (user\<lparr>validators := []\<rparr>, kfree_many (length (validators user)) km)"

definition user_event_destroy_fields :: "user_event \<Rightarrow> kmem \<Rightarrow> user_event \<times> kmem" where
  "user_event_destroy_fields user km =
     (user\<lparr>fields' := []\<rparr>, kfree_many (length (fields' user)) km)"

definition user_event_set_call_visible :: "system \<Rightarrow> string \<Rightarrow> bool \<Rightarrow> int \<times> system" where
  "user_event_set_call_visible sys n visible =
     (if prepare_creds_ok sys then
        (if visible then
           (let ret = trace_add_event_call_ret sys in
            (ret, if ret = 0 then sys\<lparr>event_calls := n # event_calls sys\<rparr> else sys))
         else
           (let ret = trace_remove_event_call_ret sys in
            (ret, if ret = 0 then sys\<lparr>event_calls := remove1 n (event_calls sys)\<rparr> else sys)))
      else (- ENOMEM, sys))"

definition user_event_trace_register :: "system \<Rightarrow> string \<Rightarrow> int \<times> system" where
  "user_event_trace_register sys n =
     (if register_trace_event_ret sys = 0 then (- ENODEV, sys)
      else
        (case user_event_set_call_visible (sys\<lparr>trace_events := n # trace_events sys\<rparr>) n True of
           (ret, sys') \<Rightarrow>
             if ret = 0 then (ret, sys')
             else (ret, sys'\<lparr>trace_events := remove1 n (trace_events sys')\<rparr>)))"

text \<open>
  \<open>destroy_user_event\<close> works on the event of the given name in the table.  When the
  call cannot be made invisible the event stays in the table, its fields already freed.
\<close>

definition destroy_user_event :: "system \<Rightarrow> user_event \<Rightarrow> int \<times> system" where
  "destroy_user_event sys user =
     (case user_event_destroy_fields user (kmem sys) of
        (user1, km1) \<Rightarrow>
          (let sys1 = sys\<lparr>register_table := update_event (name user) (\<lambda>_. user1) (register_table sys),
                           kmem := km1\<rparr> in
           case user_event_set_call_visible sys1 (name user) False of
             (ret, sys2) \<Rightarrow>
               if ret = 0 then
                 (case user_event_destroy_validators user1 (kmem sys2) of
                    (user2, km2) \<Rightarrow>
                      (ret, sys2\<lparr>dyn_events := remove1 (name user) (dyn_events sys2),
                                  register_table := hash_del (name user) (register_table sys2),
                                  kmem := kfree (kfree (kfree_opt (print_fmt user2) km2)),
                                  current_user_events :=
                                    (if current_user_events sys2 > 0
                                     then current_user_events sys2 - 1
                                     else current_user_events sys2)\<rparr>))
               else (ret, sys2)))"

text \<open>A freshly allocated, zeroed event with its lists initialised and its name set.\<close>

definition new_user_event :: "string \<Rightarrow> user_event" where
  "new_user_event n =
     \<lparr>name = n, fields' = [], validators = [], refcnt = 0, min_size = 0, status = 0,
      print_fmt = None, key_enabled = 0, funcs = [], perf_events = False\<rparr>"

text \<open>The exit path \<^verbatim>\<open>put_user\<close> of \<open>user_event_parse\<close>.\<close>

definition put_user :: "user_event \<Rightarrow> kmem \<Rightarrow> kmem" where
  "put_user user km =
     (case user_event_destroy_fields user km of
        (user1, km1) \<Rightarrow>
          (case user_event_destroy_validators user1 km1 of
             (user2, km2) \<Rightarrow> kfree (kfree_opt (print_fmt user2) km2)))"

text \<open>
  \<open>user_event_parse\<close>: on success the caller's reference is on the event called \<open>n\<close>
  in the table.  The name buffer is counted in \<open>live\<close> by the caller; it is freed here
  when the event exists already and kept by the new event otherwise.
\<close>

definition user_event_parse ::
  "nat \<Rightarrow> system \<Rightarrow> string \<Rightarrow> string option \<Rightarrow> string option \<Rightarrow> int \<times> system" where
  "user_event_parse hdr sys n args flags =
     (case find_user_event (register_table sys) n of
        Some table' \<Rightarrow> (0, sys\<lparr>register_table := table', kmem := kfree (kmem sys)\<rparr>)
      | None \<Rightarrow>
          (case kmalloc (kmem sys) of
             (False, km0) \<Rightarrow> (- ENOMEM, sys\<lparr>kmem := km0\<rparr>)
           | (True, km0) \<Rightarrow>
               (case user_event_parse_fields hdr (new_user_event n) args km0 of
                  (ret1, user1, km1) \<Rightarrow>
                    if ret1 = 0 then
                      (case user_event_create_print_fmt user1 km1 of
                         (ret2, user2, km2) \<Rightarrow>
                           if ret2 = 0 then
                             (if current_user_events sys \<ge> max_user_events sys then
                                (- EMFILE, sys\<lparr>kmem := put_user user2 km2\<rparr>)
                              else
                                (case user_event_trace_register (sys\<lparr>kmem := km2\<rparr>) n of
                                   (ret3, sys3) \<Rightarrow>
                                     if ret3 = 0 then
                                       (0, sys3\<lparr>dyn_events := n # dyn_events sys3,
                                                register_table :=
                                                  user2\<lparr>refcnt := 2\<rparr> # register_table sys3,
                                                current_user_events :=
                                                  current_user_events sys3 + 1\<rparr>)
                                     else (ret3, sys3\<lparr>kmem := put_user user2 (kmem sys3)\<rparr>)))
                           else (ret2, sys\<lparr>kmem := put_user user2 km2\<rparr>))
                    else (ret1, sys\<lparr>kmem := put_user user1 km1\<rparr>))))"

definition user_event_parse_cmd :: "nat \<Rightarrow> system \<Rightarrow> string \<Rightarrow> string \<times> int \<times> system" where
  "user_event_parse_cmd hdr sys raw_command =
     (case strsep raw_command CHR '' '' of
        (name_flags, args) \<Rightarrow>
          (case strsep name_flags CHR '':'' of
             (n, flags) \<Rightarrow> (n, user_event_parse hdr sys n args flags)))"

definition delete_user_event :: "system \<Rightarrow> string \<Rightarrow> int \<times> system" where
  "delete_user_event sys n =
     (case find_user_event (register_table sys) n of
        None \<Rightarrow> (- ENOENT, sys)
      | Some table1 \<Rightarrow>
          (let table2 = update_event n refcount_dec table1;
               sys2 = sys\<lparr>register_table := table2\<rparr> in
           case lookup_event table2 n of
             None \<Rightarrow> (- ENOENT, sys2)
           | Some user \<Rightarrow>
               if user_event_last_ref user then destroy_user_event sys2 user
               else (- EBUSY, sys2)))"

subsection \<open>Validating and forwarding a payload\<close>

text \<open>
  Record memory is a function from byte addresses, counted from the start of the record,
  to bytes; addresses outside the record hold whatever the buffer held before.  A
  32-bit value is read in little-endian byte order.
\<close>

type_synonym memory = "int \<Rightarrow> 8 word"

definition read_u32 :: "memory \<Rightarrow> int \<Rightarrow> 32 word" where
  "read_u32 m a =
     ucast (m a) OR push_bit 8 (ucast (m (a + 1))) OR push_bit 16 (ucast (m (a + 2)))
       OR push_bit 24 (ucast (m (a + 3)))"

definition store_bytes :: "memory \<Rightarrow> int \<Rightarrow> 8 word list \<Rightarrow> memory" where
  "store_bytes m a bs =
     (\<lambda>x. if a \<le> x \<and> x < a + int (length bs) then bs ! nat (x - a) else m x)"

text \<open>
  \<open>user_event_validate\<close>, the loop over the validators: \<open>entry\<close> is the record
  (header and payload) and \<open>len\<close> its length.
\<close>

fun user_event_validate :: "user_event_validator list \<Rightarrow> memory \<Rightarrow> int \<Rightarrow> int" where
  "user_event_validate [] entry len = 0"
| "user_event_validate (validator # rest) entry len =
     (let pos0 = v_offset validator;
          loc = read_u32 entry pos0;
          offset = loc AND 0xffff;
          sz = drop_bit 16 loc;
          pos1 = (if v_flags validator AND VALIDATOR_REL = 0 then uint offset
                  else pos0 + (uint offset + 4));
          pos = pos1 + uint sz in
      if pos > len then - EFAULT
      else if v_flags validator AND VALIDATOR_ENSURE_NULL = 0 then
        user_event_validate rest entry len
      else if entry (pos - 1) = 0 then user_event_validate rest entry len
      else - EFAULT)"

text \<open>
  The source of a write: the bytes not yet consumed, how many of them can be read when
  page faults are served, and how many when they are not (\<open>copy_nofault\<close>).
\<close>

record iov_iter =
  iov_data :: "8 word list"
  iov_readable :: nat
  iov_resident :: nat

definition iov_count :: "iov_iter \<Rightarrow> nat" where
  "iov_count i = length (iov_data i)"

definition iov_advance :: "nat \<Rightarrow> iov_iter \<Rightarrow> iov_iter" where
  "iov_advance k i =
     i\<lparr>iov_data := drop k (iov_data i), iov_readable := iov_readable i - k,
       iov_resident := iov_resident i - k\<rparr>"

definition copy_from_iter :: "nat \<Rightarrow> iov_iter \<Rightarrow> 8 word list \<times> iov_iter" where
  "copy_from_iter bytes i =
     (let k = min bytes (min (iov_count i) (iov_readable i)) in
      (take k (iov_data i), iov_advance k i))"

definition copy_nofault :: "nat \<Rightarrow> iov_iter \<Rightarrow> 8 word list \<times> iov_iter" where
  "copy_nofault bytes i =
     (let k = min bytes (min (iov_count i) (iov_resident i)) in
      (take k (iov_data i), iov_advance k i))"

text \<open>\<open>fault_in_iov_iter_readable\<close>: the number of bytes that could not be faulted in.\<close>

definition fault_in_iov_iter_readable :: "iov_iter \<Rightarrow> nat \<Rightarrow> nat" where
  "fault_in_iov_iter_readable i sz = sz - min sz (iov_readable i)"

text \<open>
  The two sinks.  For each: how many records were reserved, the records published, and
  how many reservations were given up.  \<open>slot\<close> is the memory of the record that the
  next reservation returns, its header filled in by the sink; \<open>perf_alloc_ok\<close> says
  whether \<open>perf_trace_buf_alloc\<close> succeeds.
\<close>

record sinks =
  ftrace_reserved :: nat
  ftrace_committed :: "8 word list list"
  ftrace_discarded :: nat
  perf_reserved :: nat
  perf_submitted :: "8 word list list"
  perf_discarded :: nat
  slot :: memory
  perf_alloc_ok :: bool

definition record_bytes :: "memory \<Rightarrow> nat \<Rightarrow> 8 word list" where
  "record_bytes m sz = map (\<lambda>a. m (int a)) [0..<sz]"

text \<open>The record that a probe builds from the payload it could copy.\<close>

definition fill_entry :: "nat \<Rightarrow> sinks \<Rightarrow> 8 word list \<Rightarrow> memory" where
  "fill_entry hdr snk copied = store_bytes (slot snk) (int hdr) copied"

definition user_event_ftrace ::
  "nat \<Rightarrow> user_event \<Rightarrow> iov_iter \<Rightarrow> trace_event_file option \<Rightarrow> sinks \<Rightarrow> bool \<Rightarrow> sinks \<times> bool" where
  "user_event_ftrace hdr user i tpdata snk faulted =
     (let sz = hdr + iov_count i in
      case tpdata of
        None \<Rightarrow> (snk, faulted)
      | Some file \<Rightarrow>
          if file_enabled file \<and> \<not> file_soft_disabled file then
            (if file_reserve_ok file then
               (let snk1 = snk\<lparr>ftrace_reserved := ftrace_reserved snk + 1\<rparr>;
                    discard = (snk1\<lparr>ftrace_discarded := ftrace_discarded snk1 + 1\<rparr>, True) in
                case copy_nofault (iov_count i) i of
                  (copied, _) \<Rightarrow>
                    if length copied = 0 then discard
                    else if validators user \<noteq> [] \<and>
                            user_event_validate (validators user) (fill_entry hdr snk copied)
                              (int sz) \<noteq> 0
                    then discard
                    else
                      (snk1\<lparr>ftrace_committed := ftrace_committed snk1 @
                               [record_bytes (fill_entry hdr snk copied) sz]\<rparr>, faulted))
             else (snk, faulted))
          else (snk, faulted))"

definition user_event_perf ::
  "nat \<Rightarrow> user_event \<Rightarrow> iov_iter \<Rightarrow> trace_event_file option \<Rightarrow> sinks \<Rightarrow> bool \<Rightarrow> sinks \<times> bool" where
  "user_event_perf hdr user i tpdata snk faulted =
     (let sz = hdr + iov_count i in
      if perf_events user then
        (if perf_alloc_ok snk then
           (let snk1 = snk\<lparr>perf_reserved := perf_reserved snk + 1\<rparr>;
                discard = (snk1\<lparr>perf_discarded := perf_discarded snk1 + 1\<rparr>, True) in
            case copy_nofault (iov_count i) i of
              (copied, _) \<Rightarrow>
                if length copied = 0 then discard
                else if validators user \<noteq> [] \<and>
                        user_event_validate (validators user) (fill_entry hdr snk copied)
                          (int sz) \<noteq> 0
                then discard
                else
                  (snk1\<lparr>perf_submitted := perf_submitted snk1 @
                           [record_bytes (fill_entry hdr snk copied) sz]\<rparr>, faulted))
         else (snk, faulted))
      else (snk, faulted))"

text \<open>
  The loop over the tracepoint's probes in \<open>user_events_write_core\<close>.  A probe that is
  neither of the two above belongs to another subsystem; it is taken to leave the two
  sinks and the fault flag alone.
\<close>

fun call_probes ::
  "nat \<Rightarrow> user_event \<Rightarrow> iov_iter \<Rightarrow> tracepoint_func list \<Rightarrow> sinks \<Rightarrow> bool \<Rightarrow> sinks \<times> bool" where
  "call_probes hdr user i [] snk faulted = (snk, faulted)"
| "call_probes hdr user i (p # ps) snk faulted =
     (case (case func p of
              Probe_ftrace \<Rightarrow> user_event_ftrace hdr user i (data p) snk faulted
            | Probe_perf \<Rightarrow> user_event_perf hdr user i (data p) snk faulted
            | Probe_other \<Rightarrow> (snk, faulted)) of
        (snk', faulted') \<Rightarrow> call_probes hdr user i ps snk' faulted')"

text \<open>
  \<open>update_enable_bit_for\<close>: the status byte computed from the tracepoint.  The writes
  into the memory of the processes that follow (\<open>user_event_enabler_update\<close>) do not
  touch the event and are left out.
\<close>

fun probe_status :: "tracepoint_func list \<Rightarrow> 8 word \<Rightarrow> 8 word" where
  "probe_status [] st = st"
| "probe_status (p # ps) st =
     probe_status ps
       (case func p of
          Probe_ftrace \<Rightarrow> st OR EVENT_STATUS_FTRACE
        | Probe_perf \<Rightarrow> st OR EVENT_STATUS_PERF
        | Probe_other \<Rightarrow> st OR EVENT_STATUS_OTHER)"

definition update_enable_bit_for :: "user_event \<Rightarrow> user_event" where
  "update_enable_bit_for user =
     user\<lparr>status := (if key_enabled user > 0 then probe_status (funcs user) 0 else 0)\<rparr>"

text \<open>
  \<open>user_event_reg\<close>, the callback through which the tracing core attaches and detaches
  a sink.  \<open>tracepoint_probe_register\<close> and \<open>tracepoint_probe_unregister\<close> belong
  to kernel/tracepoint.c and are parameters: they change the tracepoint's key and probe
  array, the first may fail.  \<open>call_data\<close> is \<^verbatim>\<open>call->data\<close>, the event or NULL.
\<close>

datatype trace_reg =
  TRACE_REG_REGISTER
| TRACE_REG_UNREGISTER
| TRACE_REG_PERF_REGISTER
| TRACE_REG_PERF_UNREGISTER
| TRACE_REG_PERF_OPEN
| TRACE_REG_PERF_CLOSE
| TRACE_REG_PERF_ADD
| TRACE_REG_PERF_DEL

definition user_event_reg ::
  "(user_event \<Rightarrow> probe_func \<Rightarrow> trace_event_file option \<Rightarrow> int \<times> user_event)
   \<Rightarrow> (user_event \<Rightarrow> probe_func \<Rightarrow> trace_event_file option \<Rightarrow> user_event)
   \<Rightarrow> user_event option \<Rightarrow> trace_reg \<Rightarrow> trace_event_file option
   \<Rightarrow> int \<times> user_event option" where
  "user_event_reg tracepoint_probe_register tracepoint_probe_unregister call_data type data' =
     (case call_data of
        None \<Rightarrow> (- ENOENT, None)
      | Some user \<Rightarrow>
          (let inc = (\<lambda>u. (0, Some (update_enable_bit_for (refcount_inc u))));
               dec = (\<lambda>u. (0, Some (refcount_dec (update_enable_bit_for u))));
               reg = (\<lambda>probe. case tracepoint_probe_register user probe data' of
                        (ret, u) \<Rightarrow> if ret = 0 then inc u else (ret, Some u))
           in case type of
                TRACE_REG_REGISTER \<Rightarrow> reg Probe_ftrace
              | TRACE_REG_UNREGISTER \<Rightarrow>
                  dec (tracepoint_probe_unregister user Probe_ftrace data')
              | TRACE_REG_PERF_REGISTER \<Rightarrow> reg Probe_perf
              | TRACE_REG_PERF_UNREGISTER \<Rightarrow>
                  dec (tracepoint_probe_unregister user Probe_perf data')
              | _ \<Rightarrow> (0, Some user)))"

text \<open>
  The per-file array of event references; the array holds \<open>length\<close> many pointers,
  an event pointer is the event's name, \<open>None\<close> is NULL.
\<close>

type_synonym user_event_refs = "string option list"

record user_event_file_info =
  refs :: "user_event_refs option"

text \<open>
  The outcome of a write: the value returned, or \<open>Invalid_access\<close> when the code reads
  memory that is not an element of the array or not an event.
\<close>

datatype write_result = Returned int | Invalid_access

definition le32 :: "8 word list \<Rightarrow> 32 word" where
  "le32 bs = read_u32 (\<lambda>a. bs ! nat a) 0"

text \<open>\<open>user->min_size\<close> converted to \<open>size_t\<close> for the comparison with the byte count.\<close>

definition min_size_as_size_t :: "user_event \<Rightarrow> int" where
  "min_size_as_size_t user = uint (word_of_int (min_size user) :: 64 word)"

definition user_events_write_core ::
  "nat \<Rightarrow> user_event list \<Rightarrow> user_event_file_info \<Rightarrow> iov_iter \<Rightarrow> sinks
   \<Rightarrow> write_result \<times> sinks" where
  "user_events_write_core hdr table info i0 snk =
     (let ret = int (iov_count i0) in
      case copy_from_iter 4 i0 of
        (idx_bytes, i) \<Rightarrow>
          if length idx_bytes = 4 then
            (let idx = sint (le32 idx_bytes) in
             case refs info of
               None \<Rightarrow> (Returned (- ENOENT), snk)
             | Some events \<Rightarrow>
                 if idx < int (length events) then
                   (if idx < 0 then (Invalid_access, snk)
                    else
                      (case events ! nat idx of
                         None \<Rightarrow> (Returned (- ENOENT), snk)
                       | Some p \<Rightarrow>
                           (case lookup_event table p of
                              None \<Rightarrow> (Invalid_access, snk)
                            | Some user \<Rightarrow>
                                if int (iov_count i) < min_size_as_size_t user
                                then (Returned (- EINVAL), snk)
                                else if key_enabled user > 0 then
                                  (if fault_in_iov_iter_readable i (iov_count i) = 0 then
                                     (case call_probes hdr user i (funcs user) snk False of
                                        (snk', faulted) \<Rightarrow>
                                          if faulted then (Returned (- EFAULT), snk')
                                          else (Returned ret, snk'))
                                   else (Returned (- EFAULT), snk))
                                else (Returned ret, snk))))
                 else (Returned (- ENOENT), snk))
          else (Returned (- EFAULT), snk))"

subsection \<open>The register control operation\<close>

text \<open>
  \<^verbatim>\<open>struct user_reg\<close> is declared in the user-space API header, outside the file:
  a packed structure of 28 bytes whose last member is \<open>write_index\<close>.
\<close>

record user_reg =
  reg_size :: "32 word"
  enable_bit :: "8 word"
  enable_size :: "8 word"
  reg_flags :: "16 word"
  enable_addr :: "64 word"
  name_args :: "64 word"
  write_index :: "32 word"

definition sizeof_user_reg :: nat where "sizeof_user_reg = 28"

definition offsetofend_write_index :: nat where "offsetofend_write_index = 28"

definition BITS_PER_BYTE :: int where "BITS_PER_BYTE = 8"

definition MAX_EVENT_DESC :: nat where "MAX_EVENT_DESC = 512"

text \<open>
  The caller's descriptor as the kernel finds it: whether reading its size field faults,
  the values of its members, whether the bytes beyond the kernel's structure can be read
  and are all zero, and whether copying the structure faults.
\<close>

record user_reg_mem =
  size_faults :: bool
  content :: user_reg
  tail_faults :: bool
  tail_zero :: bool
  copy_faults :: bool

text \<open>What the architecture fixes: the page size, the width of a long, and \<open>access_ok\<close>.\<close>

record machine =
  page_size :: nat
  bits_per_long :: nat
  access_ok :: "64 word \<Rightarrow> 8 word \<Rightarrow> bool"

text \<open>\<open>copy_struct_from_user\<close> for a user size not below the kernel's size.\<close>

definition copy_struct_from_user :: "nat \<Rightarrow> user_reg_mem \<Rightarrow> nat \<Rightarrow> int" where
  "copy_struct_from_user ksize um usize =
     (if usize > ksize \<and> tail_faults um then - EFAULT
      else if usize > ksize \<and> \<not> tail_zero um then - E2BIG
      else if copy_faults um then - EFAULT
      else 0)"

definition user_reg_get :: "machine \<Rightarrow> user_reg_mem \<Rightarrow> int + user_reg" where
  "user_reg_get m um =
     (if size_faults um then Inl (- EFAULT)
      else
        (let sz = unat (reg_size (content um)) in
         if sz > page_size m then Inl (- E2BIG)
         else if sz < offsetofend_write_index then Inl (- EINVAL)
         else
           (let ret = copy_struct_from_user sizeof_user_reg um sz;
                kreg = content um in
            if ret = 0 then
              (if reg_flags kreg = 0 then
                 (if enable_size kreg = 4 \<or> (enable_size kreg = 8 \<and> bits_per_long m \<ge> 64) then
                    (if uint (enable_addr kreg) mod uint (enable_size kreg) = 0 then
                       (if uint (enable_bit kreg) > uint (enable_size kreg) * BITS_PER_BYTE - 1
                        then Inl (- EINVAL)
                        else if access_ok m (enable_addr kreg) (enable_size kreg)
                        then Inr (kreg\<lparr>reg_size := of_nat sz\<rparr>)
                        else Inl (- EFAULT))
                     else Inl (- EINVAL))
                  else Inl (- EINVAL))
               else Inl (- EINVAL))
            else Inl ret)))"

fun ref_index :: "user_event_refs \<Rightarrow> string \<Rightarrow> nat \<Rightarrow> nat option" where
  "ref_index [] n i = None"
| "ref_index (e # es) n i = (if e = Some n then Some i else ref_index es n (Suc i))"

definition user_events_ref_add ::
  "user_event_file_info \<Rightarrow> string \<Rightarrow> system \<Rightarrow> int \<times> user_event_file_info \<times> system" where
  "user_events_ref_add info n sys =
     (let old = (case refs info of None \<Rightarrow> [] | Some events \<Rightarrow> events) in
      case ref_index old n 0 of
        Some i \<Rightarrow> (int i, info, sys)
      | None \<Rightarrow>
          (case kmalloc (kmem sys) of
             (False, km) \<Rightarrow> (- ENOMEM, info, sys\<lparr>kmem := km\<rparr>)
           | (True, km) \<Rightarrow>
               (int (length old), info\<lparr>refs := Some (old @ [Some n])\<rparr>,
                sys\<lparr>register_table := update_event n refcount_inc (register_table sys),
                    kmem := kfree_opt (refs info) km\<rparr>)))"

text \<open>
  \<open>user_events_ioctl_reg\<close>.  The state is the registry, the file's references, the
  state \<open>proc\<close> of the calling process (its address space and enablers) and the
  caller's descriptor.  \<open>strndup_user\<close> and \<open>user_event_enabler_create\<close> are
  parameters: the first reads the caller's memory, the second returns whether an enabler
  was allocated, the result of its write, and the states it leaves.
\<close>

definition user_events_ioctl_reg ::
  "nat \<Rightarrow> machine \<Rightarrow> (64 word \<Rightarrow> nat \<Rightarrow> int + string)
   \<Rightarrow> (user_reg \<Rightarrow> string \<Rightarrow> system \<Rightarrow> 'proc \<Rightarrow> bool \<times> int \<times> system \<times> 'proc)
   \<Rightarrow> system \<Rightarrow> user_event_file_info \<Rightarrow> 'proc \<Rightarrow> user_reg_mem
   \<Rightarrow> int \<times> system \<times> user_event_file_info \<times> 'proc \<times> user_reg_mem" where
  "user_events_ioctl_reg hdr m strndup_user user_event_enabler_create sys info proc um =
     (case user_reg_get m um of
        Inl ret \<Rightarrow> (ret, sys, info, proc, um)
      | Inr reg \<Rightarrow>
          (case strndup_user (name_args reg) MAX_EVENT_DESC of
             Inl err \<Rightarrow> (err, sys, info, proc, um)
           | Inr raw \<Rightarrow>
               (case user_event_parse_cmd hdr
                       (sys\<lparr>kmem := (kmem sys)\<lparr>live := live (kmem sys) + 1\<rparr>\<rparr>) raw of
                  (n, ret, sys1) \<Rightarrow>
                    if ret = 0 then
                      (case user_events_ref_add info n sys1 of
                         (idx, info', sys2) \<Rightarrow>
                           (let sys3 = sys2\<lparr>register_table :=
                                  update_event n refcount_dec (register_table sys2)\<rparr> in
                            if idx < 0 then (idx, sys3, info', proc, um)
                            else
                              (case user_event_enabler_create reg n sys3 proc of
                                 (enabler_ok, write_result, sys4, proc') \<Rightarrow>
                                   if enabler_ok then
                                     (if write_result = 0 then
                                        (0, sys4, info', proc',
                                         um\<lparr>content := (content um)\<lparr>write_index := word_of_int idx\<rparr>\<rparr>)
                                      else (write_result, sys4, info', proc', um))
                                   else (- ENOMEM, sys4, info', proc', um))))
                    else (ret, sys1\<lparr>kmem := kfree (kmem sys1)\<rparr>, info, proc, um))))"

section \<open>Properties\<close>

subsection \<open>Notions used in the statements\<close>




text \<open>
  The live-status of an event is its status byte.  The emission path does not read the
  byte but the tracepoint's key, so the two have to agree: the tracepoint is armed when
  its key is enabled exactly while probes are attached (the discipline of
  kernel/tracepoint.c), and the status is current when the byte is what
  \<open>update_enable_bit_for\<close> computes from the tracepoint as it is.
\<close>

definition tracepoint_armed :: "user_event \<Rightarrow> bool" where
  "tracepoint_armed user = ((0 < key_enabled user) = (funcs user \<noteq> []))"

definition status_current :: "user_event \<Rightarrow> bool" where
  "status_current user = (status user = status (update_enable_bit_for user))"

definition tracepoint_consistent :: "user_event \<Rightarrow> bool" where
  "tracepoint_consistent user = (tracepoint_armed user \<and> status_current user)"
text \<open>
  The objects an event under construction owns besides itself: its fields and validators.
\<close>

definition owned :: "user_event \<Rightarrow> int" where
  "owned user = int (length (fields' user)) + int (length (validators user))"

text \<open>An indirect field: its type carries one of the two locator prefixes.\<close>

definition indirect_type :: "string \<Rightarrow> bool" where
  "indirect_type type =
     (str_has_prefix type ''__data_loc '' \<noteq> 0 \<or> str_has_prefix type ''__rel_loc '' \<noteq> 0)"

text \<open>
  The layout that the parser's loop maintains in machine arithmetic: every field lies at
  the header size plus the sizes of the fields before it, reduced to a signed 32-bit value.
\<close>

fun word_layout :: "nat \<Rightarrow> ftrace_event_field list \<Rightarrow> bool" where
  "word_layout hdr [] = True"
| "word_layout hdr (f # rest) =
     (f_offset f = sint (word_of_int (int hdr + sum_list (map f_size rest)) :: 32 word)
      \<and> 0 < f_size f \<and> f_size f < 2 ^ 31
      \<and> (indirect_type (f_type f) \<longrightarrow> f_size f = 4)
      \<and> word_layout hdr rest)"

text \<open>Offsets assigned sequentially from \<open>start\<close>, in declaration order.\<close>

fun seq_offsets :: "int \<Rightarrow> ftrace_event_field list \<Rightarrow> bool" where
  "seq_offsets start [] = True"
| "seq_offsets start (f # fs) = (f_offset f = start \<and> seq_offsets (start + f_size f) fs)"

text \<open>The sizes of the fixed fields, and four bytes for every indirect field.\<close>

definition declared_size :: "ftrace_event_field list \<Rightarrow> int" where
  "declared_size fs =
     sum_list (map f_size (filter (\<lambda>f. \<not> indirect_type (f_type f)) fs))
       + 4 * int (length (filter (\<lambda>f. indirect_type (f_type f)) fs))"

text \<open>The fields of the example \<^verbatim>\<open>test char[20] msg;unsigned int id\<close>, for a header of \<open>hdr\<close> bytes.\<close>

definition example_fields :: "nat \<Rightarrow> ftrace_event_field list" where
  "example_fields hdr =
     [\<lparr>f_type = ''char[20]'', f_name = ''msg'', f_offset = int hdr, f_size = 20,
       f_is_signed = True, f_filter_type = FILTER_OTHER\<rparr>,
      \<lparr>f_type = ''unsigned int'', f_name = ''id'', f_offset = int hdr + 20, f_size = 4,
       f_is_signed = False, f_filter_type = FILTER_OTHER\<rparr>]"

text \<open>
  The classes of defective fields are stated on the text of a field, not on what the
  parser makes of it.  The type keywords with a fixed size, the char arrays and the
  locators are the known types.
\<close>

definition known_type_keyword :: "string \<Rightarrow> bool" where
  "known_type_keyword type =
     (type \<in> set [''s64'', ''u64'', ''s32'', ''u32'', ''int'', ''unsigned int'', ''s16'', ''u16'',
                   ''short'', ''unsigned short'', ''s8'', ''u8'', ''char'', ''unsigned char'']
      \<or> str_has_prefix type ''char['' \<noteq> 0
      \<or> str_has_prefix type ''unsigned char['' \<noteq> 0
      \<or> str_has_prefix type ''__data_loc '' \<noteq> 0
      \<or> str_has_prefix type ''__rel_loc '' \<noteq> 0)"

text \<open>A char array, and the number of elements it declares.\<close>

definition array_type :: "string \<Rightarrow> bool" where
  "array_type type =
     (str_has_prefix type ''char['' \<noteq> 0 \<or> str_has_prefix type ''unsigned char['' \<noteq> 0)"

text \<open>
  The number is read from the text after the first \<^verbatim>\<open>[\<close> of the type: that text has
  1 to 7 characters up to the end of the type, contains \<^verbatim>\<open>]\<close>, and what comes before
  the first \<^verbatim>\<open>]\<close> is a number (decimal, octal with a leading 0, or hexadecimal with
  \<^verbatim>\<open>0x\<close>).  \<open>None\<close> when one of these fails.
\<close>

definition array_elems :: "string \<Rightarrow> int option" where
  "array_elems type =
     (case strchr type CHR ''['' of
        None \<Rightarrow> None
      | Some start \<Rightarrow>
          (let inner = tl start in
           if inner = [] \<or> 7 < length inner then None
           else (case strsep inner CHR '']'' of
                   (num, Some _) \<Rightarrow>
                     (case kstrtouint num 0 of Inr v \<Rightarrow> Some (sint v) | Inl _ \<Rightarrow> None)
                 | (_, None) \<Rightarrow> None)))"

text \<open>
  The words of a field are what single spaces separate in it, leading white space
  skipped.  The type takes the first word; two words when the first is \<^verbatim>\<open>unsigned\<close>,
  \<^verbatim>\<open>struct\<close>, \<^verbatim>\<open>__data_loc\<close> or \<^verbatim>\<open>__rel_loc\<close> and a second word follows; three
  when \<^verbatim>\<open>unsigned\<close> follows one of the two locator words and a third word is there.
  The words after the type are the name and the size.
\<close>

definition field_words :: "string \<Rightarrow> string list" where
  "field_words field = strsep_all (skip_spaces field) CHR '' ''"

fun type_words :: "string list \<Rightarrow> nat" where
  "type_words (w1 # w2 # ws) =
     (if w1 = ''unsigned'' \<or> w1 = ''struct'' then 2
      else if w1 = ''__data_loc'' \<or> w1 = ''__rel_loc''
        then (if w2 = ''unsigned'' \<and> ws \<noteq> [] then 3 else 2)
      else 1)"
| "type_words ws = 1"

fun join_words :: "string list \<Rightarrow> string" where
  "join_words [] = []"
| "join_words [w] = w"
| "join_words (w # ws) = w @ CHR '' '' # join_words ws"

definition field_type :: "string \<Rightarrow> string" where
  "field_type field = join_words (take (type_words (field_words field)) (field_words field))"

definition after_type :: "string \<Rightarrow> string list" where
  "after_type field = drop (type_words (field_words field)) (field_words field)"

definition struct_type :: "string \<Rightarrow> bool" where
  "struct_type field =
     (case field_words field of w1 # w2 # ws \<Rightarrow> w1 = ''struct'' | _ \<Rightarrow> False)"

definition blank_field :: "string \<Rightarrow> bool" where
  "blank_field field = (skip_spaces field = [])"

definition sized_struct :: "string \<Rightarrow> bool" where
  "sized_struct field = (struct_type field \<and> 2 \<le> length (after_type field))"

definition size_token :: "string \<Rightarrow> string" where
  "size_token field = after_type field ! 1"

text \<open>
  The classes.  An unknown type is neither a known type nor a struct given with a size.
  The name is absent when no word follows the type.  The size is zero for an array of 0
  elements and for a struct whose size token reads 0.  An array is oversized beyond 1024
  elements.  The size is unreadable when an array declares no number, when a size token
  follows something that is not a struct, when words follow the size token, or when the
  size token of a struct is not a decimal number below \<open>2^31\<close>.
\<close>

definition unknown_type :: "string \<Rightarrow> bool" where
  "unknown_type field =
     (\<not> blank_field field \<and> \<not> known_type_keyword (field_type field)
      \<and> \<not> sized_struct field)"

definition absent_name :: "string \<Rightarrow> bool" where
  "absent_name field = (\<not> blank_field field \<and> after_type field = [])"

definition zero_size :: "string \<Rightarrow> bool" where
  "zero_size field =
     (\<not> blank_field field
      \<and> ((array_type (field_type field) \<and> array_elems (field_type field) = Some 0)
         \<or> (sized_struct field \<and> kstrtouint (size_token field) 10 = Inr 0)))"

definition oversized_array :: "string \<Rightarrow> bool" where
  "oversized_array field =
     (\<not> blank_field field \<and> array_type (field_type field)
      \<and> (case array_elems (field_type field) of
            Some k \<Rightarrow> MAX_FIELD_ARRAY_SIZE < k
          | None \<Rightarrow> False))"

definition unreadable_size :: "string \<Rightarrow> bool" where
  "unreadable_size field =
     (\<not> blank_field field
      \<and> ((array_type (field_type field) \<and> array_elems (field_type field) = None)
         \<or> (2 \<le> length (after_type field)
            \<and> (\<not> struct_type field \<or> 3 \<le> length (after_type field)
               \<or> (case kstrtouint (size_token field) 10 of
                     Inl _ \<Rightarrow> True
                   | Inr v \<Rightarrow> sint v < 0)))))"

definition defective_field :: "string \<Rightarrow> bool" where
  "defective_field field =
     (unknown_type field \<or> absent_name field \<or> zero_size field \<or> oversized_array field
      \<or> unreadable_size field)"

text \<open>
  Two wider classes, as the words \<^emph>\<open>missing name\<close> and \<^emph>\<open>malformed array token\<close> are
  commonly read: the name is missing also when the word after the type is empty, and an
  array token is malformed also when text follows its closing bracket.
\<close>

definition missing_name :: "string \<Rightarrow> bool" where
  "missing_name field =
     (\<not> blank_field field \<and> (case after_type field of [] \<Rightarrow> True | nm # _ \<Rightarrow> nm = []))"

definition malformed_array :: "string \<Rightarrow> bool" where
  "malformed_array field =
     (\<not> blank_field field \<and> array_type (field_type field)
      \<and> (array_elems (field_type field) = None \<or> last (field_type field) \<noteq> CHR '']''))"

text \<open>
  What the first half of the parser makes of a field, computed from its words: the
  connection between the classes above and the parser.
\<close>

definition tokens_of :: "int + (nat \<times> string \<times> string option \<times> int) \<Rightarrow> tokens" where
  "tokens_of r = (case r of Inl e \<Rightarrow> Early_return e
                  | Inr (depth, type, fname, sz) \<Rightarrow> Tokens depth type fname sz)"

definition words_result :: "string \<Rightarrow> tokens" where
  "words_result f =
     (if after_type f = [] \<and> 2 \<le> type_words (field_words f) then No_separator
      else tokens_of (parse_field_parts (after_type f) (struct_type f) 1 (field_type f) None
             (- EINVAL)))"

text \<open>
  The first error met while the entity is built (allocation, field parsing, output
  format), or 0 when all three succeed; these steps come before the test of the event
  count.
\<close>

definition construction_result :: "nat \<Rightarrow> system \<Rightarrow> string \<Rightarrow> string option \<Rightarrow> int" where
  "construction_result hdr sys n args =
     (case kmalloc (kmem sys) of
        (False, _) \<Rightarrow> - ENOMEM
      | (True, km0) \<Rightarrow>
          (case user_event_parse_fields hdr (new_user_event n) args km0 of
             (ret1, user1, km1) \<Rightarrow>
               if ret1 = 0 then fst (user_event_create_print_fmt user1 km1) else ret1))"

text \<open>The components of the state that a failed registration must leave alone.\<close>

definition registry_unchanged :: "system \<Rightarrow> system \<Rightarrow> bool" where
  "registry_unchanged sys sys' =
     (register_table sys' = register_table sys
      \<and> current_user_events sys' = current_user_events sys
      \<and> max_user_events sys' = max_user_events sys
      \<and> dyn_events sys' = dyn_events sys
      \<and> event_calls sys' = event_calls sys
      \<and> trace_events sys' = trace_events sys
      \<and> live (kmem sys') = live (kmem sys))"


text \<open>
  The live events are the entries of the table.  The counter \<open>current_user_events\<close>
  is exact when it equals their number.
\<close>

definition live_events :: "system \<Rightarrow> nat" where
  "live_events sys = length (register_table sys)"

definition count_exact :: "system \<Rightarrow> bool" where
  "count_exact sys = (unat (current_user_events sys) = live_events sys)"
text \<open>What \<open>destroy_user_event\<close> frees when it succeeds: fields, validators, format, name, event.\<close>

definition event_objects :: "user_event \<Rightarrow> int" where
  "event_objects user =
     owned user + (case print_fmt user of None \<Rightarrow> 0 | Some _ \<Rightarrow> 1) + 2"

text \<open>
  A descriptor violates the requirements on a registration when its enable size is not 4
  (or 8 where a long has 64 bits), its enable address is not a multiple of the enable
  size, its enable bit exceeds the enable size times 8 minus 1, or its flags are not zero.
\<close>

definition descriptor_violation :: "machine \<Rightarrow> user_reg \<Rightarrow> bool" where
  "descriptor_violation m r =
     (reg_flags r \<noteq> 0
      \<or> \<not> (enable_size r = 4 \<or> (enable_size r = 8 \<and> 64 \<le> bits_per_long m))
      \<or> uint (enable_addr r) mod uint (enable_size r) \<noteq> 0
      \<or> uint (enable_size r) * 8 - 1 < uint (enable_bit r))"

text \<open>The size that the descriptor announces in its first member.\<close>

definition announced_size :: "user_reg_mem \<Rightarrow> nat" where
  "announced_size um = unat (reg_size (content um))"

text \<open>
  The descriptor can be read in: its size field is readable, the announced size is at
  most a page, the bytes beyond the kernel's structure (when the announced size has any)
  are readable and zero, and the structure itself is readable.
\<close>

definition descriptor_readable :: "machine \<Rightarrow> user_reg_mem \<Rightarrow> bool" where
  "descriptor_readable m um =
     (\<not> size_faults um \<and> announced_size um \<le> page_size m
      \<and> (sizeof_user_reg < announced_size um \<longrightarrow> \<not> tail_faults um \<and> tail_zero um)
      \<and> \<not> copy_faults um)"

subsection \<open>Concrete events and payloads\<close>

text \<open>
  A relative, null-terminated locator at offset 8 of a record with an 8-byte header: the
  payload announces a region of 3 bytes right after the locator but carries only 2, so
  the end offset 15 exceeds the record length 14 and nothing is published.
\<close>

definition c1_event :: user_event where
  "c1_event =
     \<lparr>name = ''e'', fields' = [], validators = [\<lparr>v_offset = 8, v_flags = 3\<rparr>], refcnt = 2,
      min_size = 4, status = 1, print_fmt = None, key_enabled = 1, funcs = [],
      perf_events = False\<rparr>"

definition empty_sinks :: sinks where
  "empty_sinks =
     \<lparr>ftrace_reserved = 0, ftrace_committed = [], ftrace_discarded = 0, perf_reserved = 0,
      perf_submitted = [], perf_discarded = 0, slot = (\<lambda>_. 0), perf_alloc_ok = True\<rparr>"



definition neg_index :: iov_iter where
  "neg_index =
     \<lparr>iov_data = [0xff, 0xff, 0xff, 0xff, 0, 0, 0, 0], iov_readable = 8, iov_resident = 8\<rparr>"

definition c3_event :: user_event where
  "c3_event =
     \<lparr>name = ''e'', fields' = [], validators = [], refcnt = 2, min_size = 4, status = 0,
      print_fmt = None, key_enabled = 0, funcs = [], perf_events = False\<rparr>"

definition c3_write :: iov_iter where
  "c3_write = \<lparr>iov_data = [0, 0, 0, 0, 1, 2, 3, 4], iov_readable = 8, iov_resident = 8\<rparr>"

definition c3_rest :: iov_iter where
  "c3_rest = \<lparr>iov_data = [1, 2, 3, 4], iov_readable = 4, iov_resident = 4\<rparr>"

definition w_args :: string where "w_args = ''char[20] msg;__rel_loc char[] text;u64 t''"

definition w_fields :: "ftrace_event_field list" where
  "w_fields =
     [\<lparr>f_type = ''char[20]'', f_name = ''msg'', f_offset = 8, f_size = 20,
       f_is_signed = True, f_filter_type = FILTER_OTHER\<rparr>,
      \<lparr>f_type = ''__rel_loc char[]'', f_name = ''text'', f_offset = 28, f_size = 4,
       f_is_signed = True, f_filter_type = FILTER_OTHER\<rparr>,
      \<lparr>f_type = ''u64'', f_name = ''t'', f_offset = 32, f_size = 8,
       f_is_signed = False, f_filter_type = FILTER_OTHER\<rparr>]"

text \<open>An empty registry with the default limit, and one that holds the event \<^verbatim>\<open>test\<close>.\<close>

definition sys0 :: system where
  "sys0 =
     \<lparr>register_table = [], current_user_events = 0, max_user_events = initial_max_user_events,
      dyn_events = [], event_calls = [], trace_events = [],
      kmem = \<lparr>live = 1, plan = []\<rparr>, register_trace_event_ret = 1, prepare_creds_ok = True,
      trace_add_event_call_ret = 0, trace_remove_event_call_ret = 0\<rparr>"

definition stored_event :: user_event where
  "stored_event =
     \<lparr>name = ''test'', fields' = rev (example_fields 8), validators = [], refcnt = 2,
      min_size = 24, status = 0, print_fmt = None, key_enabled = 0, funcs = [],
      perf_events = False\<rparr>"

definition sys1 :: system where
  "sys1 = sys0\<lparr>register_table := [stored_event], current_user_events := 1,
               dyn_events := [''test''], event_calls := [''test''], trace_events := [''test''],
               kmem := \<lparr>live = 5, plan = []\<rparr>\<rparr>"

text \<open>
  A registry whose limit was set to 1 and that holds one event.  A new name with a
  valid field list is refused with \<open>-EMFILE\<close>; with an unknown type it is refused with
  \<open>-EINVAL\<close>, not with the resource-limit error.
\<close>

definition full_sys :: system where
  "full_sys = sys1\<lparr>max_user_events := 1\<rparr>"

definition lone_event :: user_event where
  "lone_event = stored_event\<lparr>refcnt := 1\<rparr>"

definition sys_lone :: system where
  "sys_lone = sys1\<lparr>register_table := [lone_event]\<rparr>"

text \<open>A 64-bit machine with pages of 4096 bytes, and two descriptors.\<close>

definition machine64 :: machine where
  "machine64 = \<lparr>page_size = 4096, bits_per_long = 64, access_ok = (\<lambda>_ _. True)\<rparr>"

definition bad_flags :: user_reg_mem where
  "bad_flags =
     \<lparr>size_faults = False,
      content = \<lparr>reg_size = 28, enable_bit = 0, enable_size = 4, reg_flags = 1,
                 enable_addr = 4096, name_args = 8192, write_index = 0\<rparr>,
      tail_faults = False, tail_zero = True, copy_faults = False\<rparr>"

definition long_nonzero :: user_reg_mem where
  "long_nonzero =
     bad_flags\<lparr>content := (content bad_flags)\<lparr>reg_size := 32\<rparr>, tail_zero := False\<rparr>"

subsection \<open>Validators\<close>













subsection \<open>Emission\<close>

text \<open>
  For an index that is not negative the lookup behaves as a bounds-checked one: a
  missing array, an index at or beyond the count, or an empty slot give \<open>-ENOENT\<close>, a
  payload shorter than the minimum size gives \<open>-EINVAL\<close>, and the sinks are untouched.
\<close>

lemma write_core_in_range:
  assumes "copy_from_iter 4 i0 = (idx_bytes, i)" and "length idx_bytes = 4"
    and "0 \<le> sint (le32 idx_bytes)"
  shows "(refs info = None \<or> (\<exists>events. refs info = Some events \<and>
            (int (length events) \<le> sint (le32 idx_bytes)
             \<or> events ! nat (sint (le32 idx_bytes)) = None))
          \<longrightarrow> user_events_write_core hdr table info i0 snk = (Returned (- ENOENT), snk))
       \<and> (\<forall>events p user. refs info = Some events \<and> sint (le32 idx_bytes) < int (length events)
            \<and> events ! nat (sint (le32 idx_bytes)) = Some p \<and> lookup_event table p = Some user
            \<and> int (iov_count i) < min_size_as_size_t user
          \<longrightarrow> user_events_write_core hdr table info i0 snk = (Returned (- EINVAL), snk))"
  using assms
  by (auto simp: user_events_write_core_def Let_def)

lemma le32_minus_one: "sint (le32 [0xff, 0xff, 0xff, 0xff]) = - 1"
  by (simp add: le32_def read_u32_def)

text \<open>
  \<^bold>\<open>C2.\<close>  An index outside the reference array is meant to give NotFound.  The test
  \<^verbatim>\<open>idx < refs->count\<close> compares signed integers, so the index \<open>-1\<close> (the four bytes
  \<^verbatim>\<open>ff ff ff ff\<close>) passes it on a file that holds one reference, and the code reads
  the array at \<open>-1\<close>: it does not return \<open>-ENOENT\<close> but uses whatever lies before the
  array as an event pointer.
\<close>

theorem negative_index_not_rejected:
  "user_events_write_core 8 [c1_event] \<lparr>refs = Some [Some ''e'']\<rparr> neg_index empty_sinks
     = (Invalid_access, empty_sinks)"
  by (simp add: user_events_write_core_def copy_from_iter_def neg_index_def iov_count_def
      iov_advance_def le32_minus_one Let_def)

text \<open>
  With a consistent tracepoint the status byte is 0 exactly when the key is not enabled,
  and \<open>user_event_reg\<close> leaves the tracepoint consistent whenever the tracepoint
  operations leave it armed.
\<close>

lemma probe_status_zero: "probe_status ps st = 0 \<Longrightarrow> st = 0 \<and> ps = []"
proof (induction ps arbitrary: st)
  case Nil
  then show ?case by simp
next
  case (Cons p ps)
  from Cons.prems Cons.IH[of "case func p of
          Probe_ftrace \<Rightarrow> st OR EVENT_STATUS_FTRACE
        | Probe_perf \<Rightarrow> st OR EVENT_STATUS_PERF
        | Probe_other \<Rightarrow> st OR EVENT_STATUS_OTHER"]
  show ?case
    by (cases "func p")
       (simp_all add: EVENT_STATUS_FTRACE_def EVENT_STATUS_PERF_def EVENT_STATUS_OTHER_def
         or_eq_0_iff)
qed

lemma live_status_zero:
  assumes "tracepoint_consistent user"
  shows "(status user = 0) = (key_enabled user \<le> 0)"
  using assms probe_status_zero[of "funcs user" 0]
  by (auto simp: tracepoint_consistent_def tracepoint_armed_def status_current_def
      update_enable_bit_for_def)

lemma consistent_after_update:
  "tracepoint_armed u \<Longrightarrow> tracepoint_consistent (update_enable_bit_for (refcount_inc u))"
  "tracepoint_armed u \<Longrightarrow> tracepoint_consistent (refcount_dec (update_enable_bit_for u))"
  by (simp_all add: tracepoint_consistent_def tracepoint_armed_def status_current_def
      update_enable_bit_for_def refcount_inc_def refcount_dec_def)

lemma user_event_reg_consistent:
  assumes reg: "\<And>u p d. tracepoint_armed (snd (treg u p d))"
    and unreg: "\<And>u p d. tracepoint_armed (tunreg u p d)"
    and r: "user_event_reg treg tunreg (Some user) type d = (0, Some user')"
    and t: "type \<in> {TRACE_REG_REGISTER, TRACE_REG_UNREGISTER, TRACE_REG_PERF_REGISTER,
                  TRACE_REG_PERF_UNREGISTER}"
  shows "tracepoint_consistent user'"
proof -
  have inc: "tracepoint_consistent user'"
    if "(case treg user p d of (ret, u) \<Rightarrow>
           if ret = 0 then (0, Some (update_enable_bit_for (refcount_inc u))) else (ret, Some u))
        = (0, Some user')" for p
  proof -
    obtain ret u where x: "treg user p d = (ret, u)" by (cases "treg user p d")
    with reg[of user p d] have "tracepoint_armed u" by simp
    with that x consistent_after_update(1)[of u] show ?thesis
      by (simp split: if_splits)
  qed
  have dec: "tracepoint_consistent user'"
    if "(0 :: int, Some (refcount_dec (update_enable_bit_for (tunreg user p d)))) = (0, Some user')"
    for p
    using that consistent_after_update(2)[OF unreg[of user p d]] by simp
  from t consider "type = TRACE_REG_REGISTER" | "type = TRACE_REG_UNREGISTER"
    | "type = TRACE_REG_PERF_REGISTER" | "type = TRACE_REG_PERF_UNREGISTER"
    by auto
  then show ?thesis
  proof cases
    case 1
    with r inc[of Probe_ftrace] show ?thesis by (simp add: user_event_reg_def)
  next
    case 2
    with r dec[of Probe_ftrace] show ?thesis by (simp add: user_event_reg_def)
  next
    case 3
    with r inc[of Probe_perf] show ?thesis by (simp add: user_event_reg_def)
  next
    case 4
    with r dec[of Probe_perf] show ?thesis by (simp add: user_event_reg_def)
  qed
qed

text \<open>
  \<^bold>\<open>C3.\<close>  When the index read from the first four bytes resolves to an event whose
  live-status is 0, the event's tracepoint being consistent (its key enabled exactly
  while probes are attached, its status byte the one \<open>update_enable_bit_for\<close>
  computes), and the rest of the payload is not shorter than the event's minimum size,
  then no sink is attached, the write returns the full byte count it was given and leaves
  the sinks exactly as they were: nothing is reserved, copied, validated or published.
\<close>

theorem emit_not_live:
  assumes "copy_from_iter 4 i0 = (idx_bytes, i)" and "length idx_bytes = 4"
    and "refs info = Some events"
    and "0 \<le> sint (le32 idx_bytes)" and "sint (le32 idx_bytes) < int (length events)"
    and "events ! nat (sint (le32 idx_bytes)) = Some p"
    and "lookup_event table p = Some user"
    and "status user = 0" and "tracepoint_consistent user"
    and "min_size_as_size_t user \<le> int (iov_count i)"
  shows "user_events_write_core hdr table info i0 snk = (Returned (int (iov_count i0)), snk)
       \<and> funcs user = []"
proof -
  from assms(8,9) have k: "key_enabled user \<le> 0"
    by (simp add: live_status_zero)
  with assms(9) have "funcs user = []"
    by (auto simp: tracepoint_consistent_def tracepoint_armed_def)
  with assms k show ?thesis
    by (simp add: user_events_write_core_def Let_def)
qed

lemma le32_zero: "sint (le32 [0, 0, 0, 0]) = 0"
  by (simp add: le32_def read_u32_def)

theorem emit_not_live_witness:
  "copy_from_iter 4 c3_write = ([0, 0, 0, 0], c3_rest)
   \<and> lookup_event [c3_event] ''e'' = Some c3_event
   \<and> status c3_event = 0 \<and> tracepoint_consistent c3_event
   \<and> min_size_as_size_t c3_event \<le> int (iov_count c3_rest)
   \<and> user_events_write_core 8 [c3_event] \<lparr>refs = Some [Some ''e'']\<rparr> c3_write empty_sinks
       = (Returned 8, empty_sinks)"
proof -
  have a1: "copy_from_iter 4 c3_write = ([0, 0, 0, 0], c3_rest)"
    by (simp add: copy_from_iter_def c3_write_def c3_rest_def iov_count_def iov_advance_def)
  have a2: "length ([0, 0, 0, 0] :: 8 word list) = 4" by simp
  have a3: "refs \<lparr>refs = Some [Some ''e'']\<rparr> = Some [Some ''e'']" by simp
  have a4: "0 \<le> sint (le32 [0, 0, 0, 0])" by (simp add: le32_zero)
  have a5: "sint (le32 [0, 0, 0, 0]) < int (length [Some ''e''])" by (simp add: le32_zero)
  have a6: "[Some ''e''] ! nat (sint (le32 [0, 0, 0, 0])) = Some ''e''" by (simp add: le32_zero)
  have a7: "lookup_event [c3_event] ''e'' = Some c3_event" by (simp add: c3_event_def)
  have a8: "status c3_event = 0" by (simp add: c3_event_def)
  have a9: "tracepoint_consistent c3_event"
    by (simp add: tracepoint_consistent_def tracepoint_armed_def status_current_def
        update_enable_bit_for_def c3_event_def)
  have a10: "min_size_as_size_t c3_event \<le> int (iov_count c3_rest)"
    by (simp add: min_size_as_size_t_def c3_event_def c3_rest_def iov_count_def)
  have "int (iov_count c3_write) = 8" by (simp add: c3_write_def iov_count_def)
  with emit_not_live[OF a1 a2 a3 a4 a5 a6 a7 a8 a9 a10, of 8 empty_sinks] a1 a7 a8 a9 a10
  show ?thesis by simp
qed

subsection \<open>The field parser\<close>

lemma kmalloc_live:
  "kmalloc km = (ok, km') \<Longrightarrow> live km' = (if ok then live km + 1 else live km)"
  by (auto simp: kmalloc_def split: list.splits)

lemma kfree_live [simp]: "live (kfree km) = live km - 1"
  by (simp add: kfree_def)

lemma user_event_add_field_result:
  assumes "user_event_add_field hdr user type nm off sz sg ft km = (ret, user', km')"
  shows "(ret = - ENOMEM \<and> user' = user \<and> live km' = live km)
       \<or> (ret = 0
          \<and> fields' user' = \<lparr>f_type = type, f_name = nm, f_offset = off, f_size = sz,
                               f_is_signed = sg, f_filter_type = ft\<rparr> # fields' user
          \<and> min_size user' = wrap_s32 (off + sz - int hdr)
          \<and> name user' = name user \<and> print_fmt user' = print_fmt user
          \<and> live km' - owned user' = live km - owned user)"
proof -
  obtain ok1 km1 where k1: "kmalloc km = (ok1, km1)" by (cases "kmalloc km")
  obtain ok2 km2 where k2: "kmalloc km1 = (ok2, km2)" by (cases "kmalloc km1")
  note l1 = kmalloc_live[OF k1] and l2 = kmalloc_live[OF k2]
  show ?thesis
    using assms k1 k2 l1 l2
    by (auto simp: user_event_add_field_def Let_def owned_def split: if_splits)
qed


lemma str_has_prefix_hd:
  "str_has_prefix t (c # cs) \<noteq> 0 \<Longrightarrow> t \<noteq> [] \<and> hd t = c"
  by (cases t) (auto simp: str_has_prefix_def split: if_splits)

lemma indirect_type_hd: "indirect_type t \<Longrightarrow> t \<noteq> [] \<and> hd t = CHR ''_''"
  unfolding indirect_type_def using str_has_prefix_hd by blast

lemma user_field_array_size_le: "user_field_array_size t \<le> 1024"
  by (auto simp: user_field_array_size_def EINVAL_def MAX_FIELD_ARRAY_SIZE_def
      split: option.splits prod.splits sum.splits)

lemma user_field_size_le: "user_field_size t \<le> 1024"
  using user_field_array_size_le[of t]
  by (simp add: user_field_size_def EINVAL_def)

lemma user_field_size_indirect:
  assumes "indirect_type t"
  shows "user_field_size t = 4"
proof -
  from indirect_type_hd[OF assms] obtain cs where t: "t = CHR ''_'' # cs"
    by (cases t) auto
  have "str_has_prefix t ''char['' = 0" "str_has_prefix t ''unsigned char['' = 0"
    by (simp_all add: t str_has_prefix_def)
  moreover have "t \<noteq> ''s64''" "t \<noteq> ''u64''" "t \<noteq> ''s32''" "t \<noteq> ''u32''" "t \<noteq> ''int''"
    "t \<noteq> ''unsigned int''" "t \<noteq> ''s16''" "t \<noteq> ''u16''" "t \<noteq> ''short''"
    "t \<noteq> ''unsigned short''" "t \<noteq> ''s8''" "t \<noteq> ''u8''" "t \<noteq> ''char''"
    "t \<noteq> ''unsigned char''"
    by (simp_all add: t)
  ultimately show ?thesis
    using assms by (auto simp: user_field_size_def indirect_type_def)
qed

lemma parse_field_parts_Inl:
  "parse_field_parts ps is_struct d t nm sz = Inl e \<Longrightarrow> e = - EINVAL"
  by (induction ps is_struct d t nm sz rule: parse_field_parts.induct)
     (auto split: if_splits sum.splits)

lemma parse_field_parts_Inr:
  "parse_field_parts ps is_struct d t nm sz = Inr (d', t', nm', sz') \<Longrightarrow>
     d \<le> d' \<and> (d \<le> 3 \<longrightarrow> d' \<le> 3) \<and> (1 \<le> d \<longrightarrow> t' = t) \<and> (d' \<le> 2 \<longrightarrow> sz' = sz)
     \<and> (d \<le> 2 \<and> d' = 3 \<longrightarrow> is_struct \<and> - (2 ^ 31) \<le> sz' \<and> sz' < 2 ^ 31)"
proof (induction ps is_struct d t nm sz rule: parse_field_parts.induct)
  case (1 is_struct depth type fname sz)
  then show ?case by auto
next
  case (2 part parts is_struct depth type fname sz)
  show ?case
  proof (cases "depth = 0")
    case True
    with 2 show ?thesis by (auto simp: FIELD_DEPTH_TYPE_def)
  next
    case d0: False
    show ?thesis
    proof (cases "depth = 1")
      case True
      with 2 show ?thesis
        by (auto simp: FIELD_DEPTH_TYPE_def FIELD_DEPTH_NAME_def)
    next
      case d1: False
      show ?thesis
      proof (cases "depth = 2")
        case True
        with 2(3,4) obtain v where v: "is_struct" "kstrtouint part 10 = Inr v"
          and rest: "parse_field_parts parts is_struct 3 type fname (sint v) = Inr (d', t', nm', sz')"
          by (auto simp: FIELD_DEPTH_TYPE_def FIELD_DEPTH_NAME_def FIELD_DEPTH_SIZE_def
              numeral_3_eq_3 split: if_splits sum.splits)
        have "parts = []"
          using rest
          by (cases parts)
             (auto simp: FIELD_DEPTH_TYPE_def FIELD_DEPTH_NAME_def FIELD_DEPTH_SIZE_def)
        with rest have "d' = 3" "t' = type" "sz' = sint v" by auto
        moreover have "- (2 ^ 31) \<le> sint v" "sint v < 2 ^ 31"
          using sint_ge[of v] sint_lt[of v] by simp_all
        ultimately show ?thesis using True v by simp
      next
        case False
        with d0 d1 2(4) show ?thesis
          by (auto simp: FIELD_DEPTH_TYPE_def FIELD_DEPTH_NAME_def FIELD_DEPTH_SIZE_def)
      qed
    qed
  qed
qed


lemma strpbrk_length: "strpbrk s acc = Some sp \<Longrightarrow> length sp \<le> length s \<and> sp \<noteq> []"
  by (induction s) (auto split: if_splits)

lemma field_type_prefix_struct:
  "field_type_prefix field = (len, True) \<Longrightarrow> len = 7 \<and> field \<noteq> [] \<and> hd field = CHR ''s''"
  using str_has_prefix_hd[of field "CHR ''s''" "''truct ''"]
  by (auto simp: field_type_prefix_def split: if_splits) (auto simp: str_has_prefix_def split: if_splits)

lemma field_tokens_Early_return: "field_tokens f = Early_return e \<Longrightarrow> e = - EINVAL"
  by (auto simp: field_tokens_def loop_tokens_def Let_def
      split: if_splits prod.splits option.splits sum.splits dest: parse_field_parts_Inl)

lemma field_tokens_Tokens:
  assumes "field_tokens f = Tokens d t nm sz"
  shows "d \<le> 3 \<and> (d = 3 \<longrightarrow> \<not> indirect_type t \<and> - (2 ^ 31) \<le> sz \<and> sz < 2 ^ 31)"
proof -
  let ?field = "skip_spaces f"
  obtain len is_struct where pf: "field_type_prefix ?field = (len, is_struct)"
    by (cases "field_type_prefix ?field")
  show ?thesis
  proof (cases "len = 0")
    case True
    with assms pf have "parse_field_parts (strsep_all ?field CHR '' '') False 0 [] None (- EINVAL)
        = Inr (d, t, nm, sz)"
      by (auto simp: field_tokens_def loop_tokens_def Let_def split: if_splits sum.splits)
    from parse_field_parts_Inr[OF this] show ?thesis by auto
  next
    case False
    with assms pf obtain sp where sp: "strpbrk (drop len ?field) '' '' = Some sp"
      and parts: "parse_field_parts (strsep_all (tl sp) CHR '' '') is_struct 1
                    (take (length ?field - length sp) ?field) None (- EINVAL) = Inr (d, t, nm, sz)"
      by (auto simp: field_tokens_def loop_tokens_def Let_def
          split: if_splits sum.splits option.splits)
    note r = parse_field_parts_Inr[OF parts]
    have t: "t = take (length ?field - length sp) ?field" using r by simp
    have "\<not> indirect_type t" if "d = 3"
    proof -
      from r that have "is_struct" by simp
      with pf field_type_prefix_struct[of ?field len]
      have l: "len = 7" "?field \<noteq> []" "hd ?field = CHR ''s''" by auto
      from strpbrk_length[OF sp] l have "length sp \<le> length ?field - 7" by simp
      moreover from sp l have "7 \<le> length ?field"
        by (cases "7 \<le> length ?field") auto
      ultimately have "0 < length ?field - length sp"
        using strpbrk_length[OF sp] by linarith
      then have "hd t = CHR ''s''" "t \<noteq> []"
        using l t by auto
      then show ?thesis
        using indirect_type_hd[of t] by auto
    qed
    with r show ?thesis by auto
  qed
qed

lemma sint_word_of_int_small:
  "0 \<le> x \<Longrightarrow> x < 2 ^ 31 \<Longrightarrow> sint (word_of_int x :: 32 word) = x"
  by (simp add: sint_sbintrunc' signed_take_bit_int_eq_self)

lemma user_event_parse_field_result:
  assumes "user_event_parse_field hdr f user off km = (ret, user', off', km')"
  shows "(ret < 0 \<and> user' = user \<and> live km' = live km)
       \<or> (ret = 0 \<and> user' = user \<and> off' = off \<and> km' = km)
       \<or> (ret = 0 \<and> (\<exists>type nm sz sg ft.
              0 < sz \<and> sz < 2 ^ 31 \<and> (indirect_type type \<longrightarrow> sz = 4)
              \<and> fields' user' = \<lparr>f_type = type, f_name = nm, f_offset = sint off, f_size = sz,
                                   f_is_signed = sg, f_filter_type = ft\<rparr> # fields' user
              \<and> min_size user' = wrap_s32 (sint off + sz - int hdr)
              \<and> name user' = name user \<and> print_fmt user' = print_fmt user
              \<and> off' = off + word_of_int sz
              \<and> live km' - owned user' = live km - owned user))"
proof (cases "field_tokens f")
  case Empty_field
  with assms show ?thesis by (simp add: user_event_parse_field_def)
next
  case No_separator
  with assms show ?thesis by (simp add: user_event_parse_field_def EINVAL_def)
next
  case (Early_return e)
  with assms field_tokens_Early_return[OF Early_return] show ?thesis
    by (simp add: user_event_parse_field_def EINVAL_def)
next
  case (Tokens d t nmo sz0)
  note tk = field_tokens_Tokens[OF Tokens]
  show ?thesis
  proof (cases nmo)
    case None
    with assms Tokens show ?thesis by (simp add: user_event_parse_field_def EINVAL_def)
  next
    case (Some nm)
    show ?thesis
    proof (cases "d < 2")
      case True
      with assms Tokens Some show ?thesis
        by (simp add: user_event_parse_field_def EINVAL_def FIELD_DEPTH_SIZE_def)
    next
      case False
      define sz where "sz = (if d = 2 then user_field_size t else sz0)"
      have szb: "sz < 2 ^ 31" "indirect_type t \<longrightarrow> sz = 4"
        using tk False user_field_size_le[of t] user_field_size_indirect[of t]
        by (auto simp: sz_def)
      show ?thesis
      proof (cases "sz \<le> 0")
        case True
        with assms Tokens Some False show ?thesis
          by (auto simp: user_event_parse_field_def EINVAL_def FIELD_DEPTH_SIZE_def sz_def Let_def
              split: if_splits)
      next
        case pos: False
        obtain r u k where af: "user_event_add_field hdr user t nm (sint off) sz
            (char_at t 0 \<noteq> CHR ''u'') FILTER_OTHER km = (r, u, k)"
          by (cases "user_event_add_field hdr user t nm (sint off) sz
            (char_at t 0 \<noteq> CHR ''u'') FILTER_OTHER km") auto
        have res: "ret = r" "user' = u" "off' = off + word_of_int sz" "km' = k"
          using assms Tokens Some False pos af
          by (auto simp: user_event_parse_field_def FIELD_DEPTH_SIZE_def sz_def Let_def
              split: if_splits)
        from user_event_add_field_result[OF af] show ?thesis
        proof
          assume "r = - ENOMEM \<and> u = user \<and> live k = live km"
          with res show ?thesis by (simp add: ENOMEM_def)
        next
          assume "r = 0 \<and> fields' u = \<lparr>f_type = t, f_name = nm, f_offset = sint off,
              f_size = sz, f_is_signed = char_at t 0 \<noteq> CHR ''u'', f_filter_type = FILTER_OTHER\<rparr>
              # fields' user \<and> min_size u = wrap_s32 (sint off + sz - int hdr)
              \<and> name u = name user \<and> print_fmt u = print_fmt user
              \<and> live k - owned u = live km - owned user"
          with res pos szb show ?thesis by auto
        qed
      qed
    qed
  qed
qed

lemma wrap_s32_sint_add:
  "wrap_s32 (sint (word_of_int a :: 32 word) + b - c) = wrap_s32 (a + b - c)"
proof -
  have "(word_of_int (sint (word_of_int a :: 32 word) + b - c) :: 32 word)
        = word_of_int (a + b - c)"
    by simp
  then show ?thesis by (simp only: wrap_s32_def)
qed

lemma user_event_parse_field_inv:
  assumes "user_event_parse_field hdr f user off km = (ret, user', off', km')"
    and "off = word_of_int (int hdr + sum_list (map f_size (fields' user)))"
    and "word_layout hdr (fields' user)"
    and "min_size user = wrap_s32 (sum_list (map f_size (fields' user)))"
  shows "word_layout hdr (fields' user')
       \<and> min_size user' = wrap_s32 (sum_list (map f_size (fields' user')))
       \<and> (ret = 0 \<longrightarrow> off' = word_of_int (int hdr + sum_list (map f_size (fields' user'))))
       \<and> ret \<le> 0 \<and> name user' = name user \<and> print_fmt user' = print_fmt user
       \<and> live km' - owned user' = live km - owned user
       \<and> (ret \<noteq> 0 \<longrightarrow> user' = user)"
  using user_event_parse_field_result[OF assms(1)]
proof (elim disjE conjE exE)
  assume "ret < 0" "user' = user" "live km' = live km"
  with assms show ?thesis by simp
next
  assume "ret = 0" "user' = user" "off' = off" "km' = km"
  with assms show ?thesis by simp
next
  fix type nm sz sg ft
  assume a: "ret = 0" "0 < sz" "sz < 2 ^ 31" "indirect_type type \<longrightarrow> sz = 4"
    "fields' user' = \<lparr>f_type = type, f_name = nm, f_offset = sint off, f_size = sz,
         f_is_signed = sg, f_filter_type = ft\<rparr> # fields' user"
    "min_size user' = wrap_s32 (sint off + sz - int hdr)"
    "name user' = name user" "print_fmt user' = print_fmt user" "off' = off + word_of_int sz"
    "live km' - owned user' = live km - owned user"
  have m: "min_size user' = wrap_s32 (sum_list (map f_size (fields' user')))"
    using a(5,6) assms(2) wrap_s32_sint_add[of "int hdr + sum_list (map f_size (fields' user))" sz "int hdr"]
    by (simp add: algebra_simps)
  have o: "off' = word_of_int (int hdr + sum_list (map f_size (fields' user')))"
    using a(5,9) assms(2) by simp
  show ?thesis
    using a assms(2,3) m o by simp
qed

lemma parse_fields_loop_inv:
  assumes "parse_fields_loop hdr fs user off km ret0 = (ret, user', km')"
    and "off = word_of_int (int hdr + sum_list (map f_size (fields' user)))"
    and "word_layout hdr (fields' user)"
    and "min_size user = wrap_s32 (sum_list (map f_size (fields' user)))"
    and "ret0 \<le> 0"
  shows "word_layout hdr (fields' user')
       \<and> min_size user' = wrap_s32 (sum_list (map f_size (fields' user')))
       \<and> ret \<le> 0 \<and> name user' = name user \<and> print_fmt user' = print_fmt user
       \<and> live km' - owned user' = live km - owned user"
  using assms
proof (induction fs arbitrary: user off km ret0)
  case Nil
  then show ?case by simp
next
  case (Cons f fs)
  obtain r u off1 k where step: "user_event_parse_field hdr f user off km = (r, u, off1, k)"
    by (cases "user_event_parse_field hdr f user off km") auto
  note inv = user_event_parse_field_inv[OF step Cons.prems(2,3,4)]
  show ?case
  proof (cases "r = 0")
    case True
    with Cons.prems(1) step have "parse_fields_loop hdr fs u off1 k r = (ret, user', km')"
      by simp
    from Cons.IH[OF this] inv True show ?thesis by simp
  next
    case False
    with Cons.prems(1) step have "ret = r" "user' = u" "km' = k" by simp_all
    with inv show ?thesis by simp
  qed
qed


lemma sum_sizes_nonneg: "word_layout hdr fs \<Longrightarrow> 0 \<le> sum_list (map f_size fs)"
  by (induction fs) auto

lemma seq_offsets_snoc:
  "seq_offsets start (fs @ [f])
     = (seq_offsets start fs \<and> f_offset f = start + sum_list (map f_size fs))"
  by (induction fs arbitrary: start) (auto simp: algebra_simps)

lemma word_layout_exact:
  assumes "word_layout hdr fs" and "int hdr + sum_list (map f_size fs) < 2 ^ 31"
  shows "seq_offsets (int hdr) (rev fs)"
  using assms
proof (induction fs)
  case Nil
  then show ?case by simp
next
  case (Cons f rest)
  have nn: "0 \<le> sum_list (map f_size rest)"
    using Cons.prems(1) sum_sizes_nonneg[of hdr rest] by simp
  have lt: "int hdr + sum_list (map f_size rest) < 2 ^ 31"
    using Cons.prems by simp
  have "f_offset f = int hdr + sum_list (map f_size rest)"
    using Cons.prems(1) nn lt sint_word_of_int_small[of "int hdr + sum_list (map f_size rest)"]
    by simp
  moreover have "seq_offsets (int hdr) (rev rest)"
    using Cons.IH Cons.prems(1) lt by simp
  ultimately show ?case
    by (simp add: seq_offsets_snoc rev_map[symmetric])
qed

lemma word_layout_indirect:
  "word_layout hdr fs \<Longrightarrow> \<forall>f \<in> set fs. 0 < f_size f \<and> (indirect_type (f_type f) \<longrightarrow> f_size f = 4)"
  by (induction fs) auto

lemma declared_size_sum:
  "\<forall>f \<in> set fs. indirect_type (f_type f) \<longrightarrow> f_size f = 4 \<Longrightarrow>
     sum_list (map f_size fs) = declared_size fs"
  by (induction fs) (auto simp: declared_size_def)

lemma wrap_s32_small: "0 \<le> x \<Longrightarrow> x < 2 ^ 31 \<Longrightarrow> wrap_s32 x = x"
  by (simp add: wrap_s32_def sint_word_of_int_small)

lemma user_event_parse_fields_layout:
  assumes "user_event_parse_fields hdr (new_user_event n) args km = (ret, user, km')"
  shows "word_layout hdr (fields' user)
       \<and> min_size user = wrap_s32 (sum_list (map f_size (fields' user)))
       \<and> ret \<le> 0 \<and> name user = n \<and> print_fmt user = None
       \<and> live km' - owned user = live km"
proof (cases args)
  case None
  with assms show ?thesis
    by (auto simp: user_event_parse_fields_def new_user_event_def wrap_s32_def owned_def)
next
  case (Some a)
  with assms have l: "parse_fields_loop hdr (strsep_all a CHR '';'') (new_user_event n)
      (of_nat hdr) km (- EINVAL) = (ret, user, km')"
    by (simp add: user_event_parse_fields_def)
  have "word_layout hdr (fields' user)
       \<and> min_size user = wrap_s32 (sum_list (map f_size (fields' user)))
       \<and> ret \<le> 0 \<and> name user = name (new_user_event n)
       \<and> print_fmt user = print_fmt (new_user_event n)
       \<and> live km' - owned user = live km - owned (new_user_event n)"
    by (rule parse_fields_loop_inv[OF l])
       (simp_all add: new_user_event_def wrap_s32_def EINVAL_def)
  then show ?thesis
    by (simp add: new_user_event_def owned_def)
qed

lemma tok1: "field_tokens ''char[20] msg'' = Tokens 2 ''char[20]'' (Some ''msg'') (- 22)"
  by code_simp
lemma tok2: "field_tokens ''unsigned int id'' = Tokens 2 ''unsigned int'' (Some ''id'') (- 22)"
  by code_simp
lemma sz1: "user_field_size ''char[20]'' = 20" by code_simp
lemma sz2: "user_field_size ''unsigned int'' = 4" by code_simp
lemma split1: "strsep_all ''char[20] msg;unsigned int id'' CHR '';'' = [''char[20] msg'', ''unsigned int id'']"
  by code_simp

lemma example_parse:
  assumes "int hdr + 24 < 2 ^ 31"
  shows "user_event_parse_fields hdr (new_user_event ''test'')
           (Some ''char[20] msg;unsigned int id'') \<lparr>live = l, plan = []\<rparr>
         = (0, (new_user_event ''test'')\<lparr>fields' := rev (example_fields hdr), min_size := 24\<rparr>,
            \<lparr>live = l + 2, plan = []\<rparr>)"
proof -
  have h: "sint (of_nat hdr :: 32 word) = int hdr"
    using assms sint_word_of_int_small[of "int hdr"] by simp
  have h2: "sint (of_nat hdr + 20 :: 32 word) = int hdr + 20"
    using assms sint_word_of_int_small[of "int hdr + 20"] by simp
  have w1: "wrap_s32 20 = 20" "wrap_s32 24 = 24" by (simp_all add: wrap_s32_def)
  show ?thesis
    by (simp add: user_event_parse_fields_def split1 user_event_parse_field_def tok1 tok2 sz1
        sz2 FIELD_DEPTH_SIZE_def user_event_add_field_def kmalloc_def
        str_has_prefix_def new_user_event_def h h2 w1 char_at_def example_fields_def Let_def)
qed


text \<open>
  \<^bold>\<open>C8 (amended).\<close>  For every field specification that parses successfully and
  whose header size plus total field size stays below \<open>2^31\<close>: the offsets are assigned
  sequentially from the header size in declaration order, the minimum payload size is
  the sum of the sizes of the fixed fields plus 4 bytes per indirect field, and every
  indirect field has size 4.  In particular the command
  \<^verbatim>\<open>test char[20] msg;unsigned int id\<close> is split into the name \<^verbatim>\<open>test\<close> and its
  field list, which yields \<^verbatim>\<open>char[20] msg\<close> at offset \<open>hdr\<close> with size 20,
  \<^verbatim>\<open>unsigned int id\<close> at offset \<open>hdr + 20\<close> with size 4, and the minimum size 24.
\<close>

theorem field_layout:
  "(user_event_parse_fields hdr (new_user_event n) args km = (0, user, km')
      \<and> int hdr + sum_list (map f_size (fields' user)) < 2 ^ 31
    \<longrightarrow> seq_offsets (int hdr) (rev (fields' user))
        \<and> min_size user = declared_size (fields' user)
        \<and> (\<forall>f \<in> set (fields' user). indirect_type (f_type f) \<longrightarrow> f_size f = 4))
   \<and> (int hdr + 24 < 2 ^ 31
    \<longrightarrow> user_event_parse_cmd hdr sys ''test char[20] msg;unsigned int id''
          = (''test'', user_event_parse hdr sys ''test'' (Some ''char[20] msg;unsigned int id'') None)
        \<and> user_event_parse_fields hdr (new_user_event ''test'')
            (Some ''char[20] msg;unsigned int id'') \<lparr>live = l, plan = []\<rparr>
          = (0, (new_user_event ''test'')\<lparr>fields' := rev (example_fields hdr), min_size := 24\<rparr>,
             \<lparr>live = l + 2, plan = []\<rparr>))"
proof -
  have general: "seq_offsets (int hdr) (rev (fields' user))
        \<and> min_size user = declared_size (fields' user)
        \<and> (\<forall>f \<in> set (fields' user). indirect_type (f_type f) \<longrightarrow> f_size f = 4)"
    if p: "user_event_parse_fields hdr (new_user_event n) args km = (0, user, km')"
      and b: "int hdr + sum_list (map f_size (fields' user)) < 2 ^ 31"
  proof -
    from user_event_parse_fields_layout[OF p]
    have wl: "word_layout hdr (fields' user)"
      and ms: "min_size user = wrap_s32 (sum_list (map f_size (fields' user)))"
      by simp_all
    have ind: "\<forall>f \<in> set (fields' user). indirect_type (f_type f) \<longrightarrow> f_size f = 4"
      using word_layout_indirect[OF wl] by blast
    have "0 \<le> sum_list (map f_size (fields' user))"
      using wl by (rule sum_sizes_nonneg)
    moreover have "sum_list (map f_size (fields' user)) < 2 ^ 31"
      using b by simp
    ultimately have "min_size user = sum_list (map f_size (fields' user))"
      using ms by (simp add: wrap_s32_small)
    with declared_size_sum[OF ind] word_layout_exact[OF wl b] ind show ?thesis
      by simp
  qed
  have cmd: "user_event_parse_cmd hdr sys ''test char[20] msg;unsigned int id''
          = (''test'', user_event_parse hdr sys ''test'' (Some ''char[20] msg;unsigned int id'') None)"
    by (simp add: user_event_parse_cmd_def)
  from general cmd example_parse[of hdr l] show ?thesis
    by blast
qed

lemma w_parse:
  "user_event_parse_fields 8 (new_user_event ''w'') (Some w_args) \<lparr>live = 0, plan = []\<rparr>
     = (0, (new_user_event ''w'')\<lparr>fields' := rev w_fields,
              validators := [\<lparr>v_offset = 28, v_flags = 3\<rparr>], min_size := 32\<rparr>,
        \<lparr>live = 4, plan = []\<rparr>)"
  by code_simp

theorem field_layout_witness:
  "user_event_parse_fields 8 (new_user_event ''w'') (Some w_args) \<lparr>live = 0, plan = []\<rparr>
     = (0, (new_user_event ''w'')\<lparr>fields' := rev w_fields,
              validators := [\<lparr>v_offset = 28, v_flags = 3\<rparr>], min_size := 32\<rparr>,
        \<lparr>live = 4, plan = []\<rparr>)
   \<and> int 8 + sum_list (map f_size (rev w_fields)) < 2 ^ 31
   \<and> seq_offsets 8 w_fields
   \<and> declared_size (rev w_fields) = 32
   \<and> int 8 + 24 < (2::int) ^ 31"
proof -
  let ?u = "(new_user_event ''w'')\<lparr>fields' := rev w_fields,
              validators := [\<lparr>v_offset = 28, v_flags = 3\<rparr>], min_size := 32\<rparr>"
  have b: "int 8 + sum_list (map f_size (fields' ?u)) < 2 ^ 31"
    by (simp add: w_fields_def)
  from field_layout[of 8 "''w''" "Some w_args" "\<lparr>live = 0, plan = []\<rparr>" ?u
      "\<lparr>live = 4, plan = []\<rparr>"] w_parse b
  have "seq_offsets (int 8) (rev (fields' ?u)) \<and> min_size ?u = declared_size (fields' ?u)"
    by blast
  with w_parse b show ?thesis by simp
qed

text \<open>
  Without the bound the statement fails: two structure fields of \<open>2^31 - 1\<close> bytes are
  accepted, the second one gets a negative offset and the minimum size becomes \<open>-2\<close>.
\<close>

theorem field_layout_overflow:
  "fst (user_event_parse_fields 8 (new_user_event ''e'')
          (Some ''struct a b 2147483647;struct a c 2147483647'') \<lparr>live = 0, plan = []\<rparr>) = 0
   \<and> map f_size (rev (fields' (fst (snd (user_event_parse_fields 8 (new_user_event ''e'')
          (Some ''struct a b 2147483647;struct a c 2147483647'') \<lparr>live = 0, plan = []\<rparr>)))))
       = [2147483647, 2147483647]
   \<and> map f_offset (rev (fields' (fst (snd (user_event_parse_fields 8 (new_user_event ''e'')
          (Some ''struct a b 2147483647;struct a c 2147483647'') \<lparr>live = 0, plan = []\<rparr>)))))
       = [8, - 2147483641]
   \<and> min_size (fst (snd (user_event_parse_fields 8 (new_user_event ''e'')
          (Some ''struct a b 2147483647;struct a c 2147483647'') \<lparr>live = 0, plan = []\<rparr>)))
       = - 2
   \<and> declared_size (fields' (fst (snd (user_event_parse_fields 8 (new_user_event ''e'')
          (Some ''struct a b 2147483647;struct a c 2147483647'') \<lparr>live = 0, plan = []\<rparr>))))
       = 4294967294
   \<and> \<not> seq_offsets 8 (rev (fields' (fst (snd (user_event_parse_fields 8 (new_user_event ''e'')
          (Some ''struct a b 2147483647;struct a c 2147483647'') \<lparr>live = 0, plan = []\<rparr>)))))"
  by code_simp

lemma user_field_array_size_elems:
  "user_field_array_size t =
     (case array_elems t of
        None \<Rightarrow> - EINVAL
      | Some k \<Rightarrow> if MAX_FIELD_ARRAY_SIZE < k then - EINVAL else k)"
proof (cases "strchr t CHR ''[''")
  case None
  then show ?thesis by (simp add: user_field_array_size_def array_elems_def)
next
  case (Some start)
  show ?thesis
  proof (cases "tl start = [] \<or> 7 < length (tl start)")
    case True
    with Some show ?thesis
      by (auto simp: user_field_array_size_def array_elems_def strscpy_def E2BIG_def)
  next
    case False
    then have "strscpy (tl start) 8 = (int (length (tl start)), tl start)"
      "0 < length (tl start)"
      by (cases start; auto simp: strscpy_def)+
    with Some False show ?thesis
      by (auto simp: user_field_array_size_def array_elems_def Let_def
          split: prod.splits option.splits sum.splits)
  qed
qed

lemma keywords_not_arrays:
  "\<not> array_type ''s64''" "\<not> array_type ''u64''" "\<not> array_type ''s32''"
  "\<not> array_type ''u32''" "\<not> array_type ''int''" "\<not> array_type ''unsigned int''"
  "\<not> array_type ''s16''" "\<not> array_type ''u16''" "\<not> array_type ''short''"
  "\<not> array_type ''unsigned short''" "\<not> array_type ''s8''" "\<not> array_type ''u8''"
  "\<not> array_type ''char''" "\<not> array_type ''unsigned char''"
  by (simp_all add: array_type_def str_has_prefix_def)

lemma user_field_size_array:
  assumes "array_type t"
  shows "user_field_size t = user_field_array_size t"
proof -
  have "t \<noteq> ''s64''" "t \<noteq> ''u64''" "t \<noteq> ''s32''" "t \<noteq> ''u32''" "t \<noteq> ''int''"
    "t \<noteq> ''unsigned int''" "t \<noteq> ''s16''" "t \<noteq> ''u16''" "t \<noteq> ''short''"
    "t \<noteq> ''unsigned short''" "t \<noteq> ''s8''" "t \<noteq> ''u8''" "t \<noteq> ''char''"
    "t \<noteq> ''unsigned char''"
    using assms keywords_not_arrays by blast+
  then have "user_field_size t =
     (if str_has_prefix t ''char['' \<noteq> 0 then user_field_array_size t
      else if str_has_prefix t ''unsigned char['' \<noteq> 0 then user_field_array_size t
      else if str_has_prefix t ''__data_loc '' \<noteq> 0 then 4
      else if str_has_prefix t ''__rel_loc '' \<noteq> 0 then 4
      else - EINVAL)"
    by (simp only: user_field_size_def if_False)
  with assms show ?thesis
    by (auto simp: array_type_def)
qed

lemma user_field_size_unknown:
  "\<not> known_type_keyword t \<Longrightarrow> user_field_size t = - EINVAL"
  by (simp add: known_type_keyword_def user_field_size_def)

text \<open>The words of a field and the tokens the parser takes from it.\<close>

lemma loop_tokens_of:
  "loop_tokens field is_struct d t
     = tokens_of (parse_field_parts (strsep_all field CHR '' '') is_struct d t None (- EINVAL))"
  by (simp add: loop_tokens_def tokens_of_def)

lemma strsep_all_ne [simp]: "strsep_all s d \<noteq> []"
  by (induction s) (auto split: list.splits)

lemma strsep_all_single: "d \<notin> set a \<Longrightarrow> strsep_all a d = [a]"
  by (induction a) auto

lemma strsep_all_append: "d \<notin> set a \<Longrightarrow> strsep_all (a @ d # b) d = a # strsep_all b d"
  by (induction a) auto

lemma strsep_all_two:
  "strsep_all s d = w # w' # rest \<Longrightarrow> take (Suc (length w)) s = w @ [d]"
proof (induction s arbitrary: w)
  case Nil
  then show ?case by simp
next
  case (Cons c cs)
  show ?case
  proof (cases "c = d")
    case True
    with Cons.prems show ?thesis by auto
  next
    case False
    with Cons.prems obtain t where t: "strsep_all cs d = t # w' # rest" "w = c # t"
      by (auto split: list.splits)
    from Cons.IH[OF t(1)] t(2) show ?thesis by simp
  qed
qed

lemma strpbrk_space_None: "strpbrk s '' '' = None \<Longrightarrow> CHR '' '' \<notin> set s"
  by (induction s) (auto split: if_splits)

lemma strpbrk_space_Some:
  "strpbrk s '' '' = Some sp \<Longrightarrow>
     \<exists>a b. s = a @ CHR '' '' # b \<and> sp = CHR '' '' # b \<and> CHR '' '' \<notin> set a"
proof (induction s)
  case Nil
  then show ?case by simp
next
  case (Cons c cs)
  show ?case
  proof (cases "c = CHR '' ''")
    case True
    with Cons.prems show ?thesis by (intro exI[of _ "[]"] exI[of _ cs]) simp
  next
    case False
    with Cons.prems have "strpbrk cs '' '' = Some sp" by simp
    from Cons.IH[OF this] obtain a b where "cs = a @ CHR '' '' # b" "sp = CHR '' '' # b"
      "CHR '' '' \<notin> set a" by blast
    with False show ?thesis by (intro exI[of _ "c # a"] exI[of _ b]) simp
  qed
qed

lemma skip_next_words:
  assumes "field = ty0 @ CHR '' '' # r"
  shows "(case strpbrk (drop (Suc (length ty0)) field) '' '' of
            None \<Rightarrow> No_separator
          | Some sp \<Rightarrow> loop_tokens (tl sp) is_struct 1 (take (length field - length sp) field))
       = (case strsep_all r CHR '' '' of
            [] \<Rightarrow> No_separator
          | [w] \<Rightarrow> No_separator
          | w # rest \<Rightarrow>
              tokens_of (parse_field_parts rest is_struct 1 (ty0 @ CHR '' '' # w) None (- EINVAL)))"
proof -
  have d: "drop (Suc (length ty0)) field = r" using assms by simp
  show ?thesis
  proof (cases "strpbrk r '' ''")
    case None
    from strpbrk_space_None[OF None] have "strsep_all r CHR '' '' = [r]"
      by (rule strsep_all_single)
    with None d show ?thesis by simp
  next
    case (Some sp)
    from strpbrk_space_Some[OF Some] obtain a b where
      r: "r = a @ CHR '' '' # b" and sp: "sp = CHR '' '' # b" and a: "CHR '' '' \<notin> set a"
      by blast
    from a r have ws: "strsep_all r CHR '' '' = a # strsep_all b CHR '' ''"
      by (simp add: strsep_all_append)
    obtain w' rest' where ne: "strsep_all b CHR '' '' = w' # rest'"
      by (cases "strsep_all b CHR '' ''") simp_all
    have t: "take (length field - length sp) field = ty0 @ CHR '' '' # a"
      using assms r sp by simp
    from Some d ws ne t sp show ?thesis
      by (simp add: loop_tokens_of)
  qed
qed

lemma typed_prefix_tokens:
  assumes ne: "skip_spaces f \<noteq> []"
    and F: "skip_spaces f = ty0 @ CHR '' '' # r"
    and pfx: "field_type_prefix (skip_spaces f) = (Suc (length ty0), is_struct)"
    and pre: "pre \<noteq> []"
    and ws: "\<And>w rest. strsep_all r CHR '' '' = w # rest \<Longrightarrow>
               field_words f = pre @ w # rest \<and> type_words (pre @ w # rest) = Suc (length pre)
               \<and> join_words (pre @ [w]) = ty0 @ CHR '' '' # w \<and> struct_type f = is_struct"
  shows "field_tokens f = words_result f"
proof -
  obtain w rest where r: "strsep_all r CHR '' '' = w # rest"
    by (cases "strsep_all r CHR '' ''") simp_all
  from ws[OF r] have fw: "field_words f = pre @ w # rest"
    and tw: "type_words (field_words f) = Suc (length pre)"
    and jw: "join_words (pre @ [w]) = ty0 @ CHR '' '' # w"
    and st: "struct_type f = is_struct"
    by simp_all
  have ft: "field_type f = ty0 @ CHR '' '' # w"
    using fw tw jw by (simp add: field_type_def)
  have at: "after_type f = rest"
    using fw tw by (simp add: after_type_def)
  have "field_tokens f =
      (case strpbrk (drop (Suc (length ty0)) (skip_spaces f)) '' '' of
            None \<Rightarrow> No_separator
          | Some sp \<Rightarrow> loop_tokens (tl sp) is_struct 1
                         (take (length (skip_spaces f) - length sp) (skip_spaces f)))"
    using ne pfx by (simp add: field_tokens_def Let_def)
  also have "\<dots> = (case strsep_all r CHR '' '' of
            [] \<Rightarrow> No_separator
          | [w] \<Rightarrow> No_separator
          | w # rest \<Rightarrow>
              tokens_of (parse_field_parts rest is_struct 1 (ty0 @ CHR '' '' # w) None (- EINVAL)))"
    using F by (rule skip_next_words)
  also have "\<dots> = words_result f"
  proof -
    from pre have "Suc 0 \<le> length pre" by (cases pre) simp_all
    with r ft at st tw show ?thesis
      by (cases rest) (simp_all add: words_result_def)
  qed
  finally show ?thesis .
qed

lemma plain_tokens:
  assumes ne: "skip_spaces f \<noteq> []"
    and pfx: "field_type_prefix (skip_spaces f) = (0, is_struct)"
    and tw: "type_words (field_words f) = 1"
  shows "field_tokens f = words_result f"
proof -
  obtain w rest where r: "field_words f = w # rest"
    by (cases "field_words f") (simp_all add: field_words_def)
  have ns: "\<not> struct_type f"
    using r tw by (cases rest) (auto simp: struct_type_def split: if_splits)
  have ft: "field_type f = w" using r tw by (simp add: field_type_def)
  have at: "after_type f = rest" using r tw by (simp add: after_type_def)
  have "field_tokens f = loop_tokens (skip_spaces f) False 0 []"
    using ne pfx by (simp add: field_tokens_def Let_def)
  also have "\<dots> = tokens_of (parse_field_parts (w # rest) False 0 [] None (- EINVAL))"
    using r by (simp add: loop_tokens_of field_words_def)
  also have "\<dots> = tokens_of (parse_field_parts rest False 1 w None (- EINVAL))"
    by (simp add: FIELD_DEPTH_TYPE_def)
  also have "\<dots> = words_result f"
    using ns ft at tw by (simp add: words_result_def)
  finally show ?thesis .
qed

lemma has_prefix_append:
  "str_has_prefix s pfx \<noteq> 0 \<Longrightarrow> s = pfx @ drop (length pfx) s"
  by (metis append_take_drop_id str_has_prefix_def)

lemma two_words_prefix:
  assumes "strsep_all s CHR '' '' = w # w' # rest"
  shows "str_has_prefix s (w @ '' '') \<noteq> 0"
  using strsep_all_two[OF assms] by (simp add: str_has_prefix_def)

lemma tokens_unsigned:
  assumes ne: "skip_spaces f \<noteq> []" and p: "str_has_prefix (skip_spaces f) ''unsigned '' \<noteq> 0"
  shows "field_tokens f = words_result f"
proof -
  define r where "r = drop (length ''unsigned '') (skip_spaces f)"
  from has_prefix_append[OF p] have F: "skip_spaces f = ''unsigned '' @ r"
    by (simp add: r_def)
  have pfx: "field_type_prefix (skip_spaces f) = (Suc (length ''unsigned''), False)"
    by (simp add: F field_type_prefix_def str_has_prefix_def)
  show ?thesis
  proof (rule typed_prefix_tokens[OF ne _ pfx, of r "[''unsigned'']"])
    show "skip_spaces f = ''unsigned'' @ CHR '' '' # r" by (simp add: F)
  next
    show "[''unsigned''] \<noteq> []" by simp
  next
    fix w rest assume "strsep_all r CHR '' '' = w # rest"
    then show "field_words f = [''unsigned''] @ w # rest
        \<and> type_words ([''unsigned''] @ w # rest) = Suc (length [''unsigned''])
        \<and> join_words ([''unsigned''] @ [w]) = ''unsigned'' @ CHR '' '' # w
        \<and> struct_type f = False"
      by (simp add: field_words_def struct_type_def F)
  qed
qed

lemma tokens_struct:
  assumes ne: "skip_spaces f \<noteq> []" and p: "str_has_prefix (skip_spaces f) ''struct '' \<noteq> 0"
  shows "field_tokens f = words_result f"
proof -
  define r where "r = drop (length ''struct '') (skip_spaces f)"
  from has_prefix_append[OF p] have F: "skip_spaces f = ''struct '' @ r"
    by (simp add: r_def)
  have pfx: "field_type_prefix (skip_spaces f) = (Suc (length ''struct''), True)"
    by (simp add: F field_type_prefix_def str_has_prefix_def)
  show ?thesis
  proof (rule typed_prefix_tokens[OF ne _ pfx, of r "[''struct'']"])
    show "skip_spaces f = ''struct'' @ CHR '' '' # r" by (simp add: F)
  next
    show "[''struct''] \<noteq> []" by simp
  next
    fix w rest assume "strsep_all r CHR '' '' = w # rest"
    then show "field_words f = [''struct''] @ w # rest
        \<and> type_words ([''struct''] @ w # rest) = Suc (length [''struct''])
        \<and> join_words ([''struct''] @ [w]) = ''struct'' @ CHR '' '' # w
        \<and> struct_type f = True"
      by (simp add: field_words_def struct_type_def F)
  qed
qed

lemma tokens_data_loc_unsigned:
  assumes ne: "skip_spaces f \<noteq> []"
    and p: "str_has_prefix (skip_spaces f) ''__data_loc unsigned '' \<noteq> 0"
  shows "field_tokens f = words_result f"
proof -
  define r where "r = drop (length ''__data_loc unsigned '') (skip_spaces f)"
  from has_prefix_append[OF p] have F: "skip_spaces f = ''__data_loc unsigned '' @ r"
    by (simp add: r_def)
  have pfx: "field_type_prefix (skip_spaces f) = (Suc (length ''__data_loc unsigned''), False)"
    by (simp add: F field_type_prefix_def str_has_prefix_def)
  show ?thesis
  proof (rule typed_prefix_tokens[OF ne _ pfx, of r "[''__data_loc'', ''unsigned'']"])
    show "skip_spaces f = ''__data_loc unsigned'' @ CHR '' '' # r" by (simp add: F)
  next
    show "[''__data_loc'', ''unsigned''] \<noteq> []" by simp
  next
    fix w rest assume "strsep_all r CHR '' '' = w # rest"
    then show "field_words f = [''__data_loc'', ''unsigned''] @ w # rest
        \<and> type_words ([''__data_loc'', ''unsigned''] @ w # rest)
            = Suc (length [''__data_loc'', ''unsigned''])
        \<and> join_words ([''__data_loc'', ''unsigned''] @ [w]) = ''__data_loc unsigned'' @ CHR '' '' # w
        \<and> struct_type f = False"
      by (simp add: field_words_def struct_type_def F)
  qed
qed

lemma tokens_data_loc:
  assumes ne: "skip_spaces f \<noteq> []"
    and p: "str_has_prefix (skip_spaces f) ''__data_loc '' \<noteq> 0"
    and np: "str_has_prefix (skip_spaces f) ''__data_loc unsigned '' = 0"
  shows "field_tokens f = words_result f"
proof -
  define r where "r = drop (length ''__data_loc '') (skip_spaces f)"
  from has_prefix_append[OF p] have F: "skip_spaces f = ''__data_loc '' @ r"
    by (simp add: r_def)
  have pfx: "field_type_prefix (skip_spaces f) = (Suc (length ''__data_loc''), False)"
    using np by (simp add: F field_type_prefix_def str_has_prefix_def)
  have nu: "str_has_prefix r ''unsigned '' = 0"
    using np by (simp add: F str_has_prefix_def split: if_splits)
  show ?thesis
  proof (rule typed_prefix_tokens[OF ne _ pfx, of r "[''__data_loc'']"])
    show "skip_spaces f = ''__data_loc'' @ CHR '' '' # r" by (simp add: F)
  next
    show "[''__data_loc''] \<noteq> []" by simp
  next
    fix w rest assume ws: "strsep_all r CHR '' '' = w # rest"
    have "\<not> (w = ''unsigned'' \<and> rest \<noteq> [])"
    proof
      assume a: "w = ''unsigned'' \<and> rest \<noteq> []"
      then obtain w' rest' where "rest = w' # rest'" by (cases rest) auto
      with ws a have "strsep_all r CHR '' '' = ''unsigned'' # w' # rest'" by simp
      from two_words_prefix[OF this] nu show False by simp
    qed
    with ws show "field_words f = [''__data_loc''] @ w # rest
        \<and> type_words ([''__data_loc''] @ w # rest) = Suc (length [''__data_loc''])
        \<and> join_words ([''__data_loc''] @ [w]) = ''__data_loc'' @ CHR '' '' # w
        \<and> struct_type f = False"
      by (auto simp: field_words_def struct_type_def F)
  qed
qed

lemma tokens_rel_loc_unsigned:
  assumes ne: "skip_spaces f \<noteq> []"
    and p: "str_has_prefix (skip_spaces f) ''__rel_loc unsigned '' \<noteq> 0"
  shows "field_tokens f = words_result f"
proof -
  define r where "r = drop (length ''__rel_loc unsigned '') (skip_spaces f)"
  from has_prefix_append[OF p] have F: "skip_spaces f = ''__rel_loc unsigned '' @ r"
    by (simp add: r_def)
  have pfx: "field_type_prefix (skip_spaces f) = (Suc (length ''__rel_loc unsigned''), False)"
    by (simp add: F field_type_prefix_def str_has_prefix_def)
  show ?thesis
  proof (rule typed_prefix_tokens[OF ne _ pfx, of r "[''__rel_loc'', ''unsigned'']"])
    show "skip_spaces f = ''__rel_loc unsigned'' @ CHR '' '' # r" by (simp add: F)
  next
    show "[''__rel_loc'', ''unsigned''] \<noteq> []" by simp
  next
    fix w rest assume "strsep_all r CHR '' '' = w # rest"
    then show "field_words f = [''__rel_loc'', ''unsigned''] @ w # rest
        \<and> type_words ([''__rel_loc'', ''unsigned''] @ w # rest)
            = Suc (length [''__rel_loc'', ''unsigned''])
        \<and> join_words ([''__rel_loc'', ''unsigned''] @ [w]) = ''__rel_loc unsigned'' @ CHR '' '' # w
        \<and> struct_type f = False"
      by (simp add: field_words_def struct_type_def F)
  qed
qed

lemma tokens_rel_loc:
  assumes ne: "skip_spaces f \<noteq> []"
    and p: "str_has_prefix (skip_spaces f) ''__rel_loc '' \<noteq> 0"
    and np: "str_has_prefix (skip_spaces f) ''__rel_loc unsigned '' = 0"
  shows "field_tokens f = words_result f"
proof -
  define r where "r = drop (length ''__rel_loc '') (skip_spaces f)"
  from has_prefix_append[OF p] have F: "skip_spaces f = ''__rel_loc '' @ r"
    by (simp add: r_def)
  have pfx: "field_type_prefix (skip_spaces f) = (Suc (length ''__rel_loc''), False)"
    using np by (simp add: F field_type_prefix_def str_has_prefix_def)
  have nu: "str_has_prefix r ''unsigned '' = 0"
    using np by (simp add: F str_has_prefix_def split: if_splits)
  show ?thesis
  proof (rule typed_prefix_tokens[OF ne _ pfx, of r "[''__rel_loc'']"])
    show "skip_spaces f = ''__rel_loc'' @ CHR '' '' # r" by (simp add: F)
  next
    show "[''__rel_loc''] \<noteq> []" by simp
  next
    fix w rest assume ws: "strsep_all r CHR '' '' = w # rest"
    have "\<not> (w = ''unsigned'' \<and> rest \<noteq> [])"
    proof
      assume a: "w = ''unsigned'' \<and> rest \<noteq> []"
      then obtain w' rest' where "rest = w' # rest'" by (cases rest) auto
      with ws a have "strsep_all r CHR '' '' = ''unsigned'' # w' # rest'" by simp
      from two_words_prefix[OF this] nu show False by simp
    qed
    with ws show "field_words f = [''__rel_loc''] @ w # rest
        \<and> type_words ([''__rel_loc''] @ w # rest) = Suc (length [''__rel_loc''])
        \<and> join_words ([''__rel_loc''] @ [w]) = ''__rel_loc'' @ CHR '' '' # w
        \<and> struct_type f = False"
      by (auto simp: field_words_def struct_type_def F)
  qed
qed

lemma has_prefix_shorter:
  assumes "str_has_prefix s (a @ b) \<noteq> 0" and "a \<noteq> []"
  shows "str_has_prefix s a \<noteq> 0"
proof -
  from assms(1) have "take (length (a @ b)) s = a @ b"
    by (simp add: str_has_prefix_def split: if_splits)
  then have "take (length a) (take (length (a @ b)) s) = take (length a) (a @ b)" by simp
  then have "take (length a) s = a" by (simp add: min_def)
  with assms(2) show ?thesis by (simp add: str_has_prefix_def)
qed

lemma tokens_plain:
  assumes ne: "skip_spaces f \<noteq> []"
    and n1: "str_has_prefix (skip_spaces f) ''unsigned '' = 0"
    and n2: "str_has_prefix (skip_spaces f) ''struct '' = 0"
    and n3: "str_has_prefix (skip_spaces f) ''__data_loc '' = 0"
    and n4: "str_has_prefix (skip_spaces f) ''__rel_loc '' = 0"
  shows "field_tokens f = words_result f"
proof -
  have n3u: "str_has_prefix (skip_spaces f) ''__data_loc unsigned '' = 0"
    using n3 has_prefix_shorter[of "skip_spaces f" "''__data_loc ''" "''unsigned ''"] by auto
  have n4u: "str_has_prefix (skip_spaces f) ''__rel_loc unsigned '' = 0"
    using n4 has_prefix_shorter[of "skip_spaces f" "''__rel_loc ''" "''unsigned ''"] by auto
  have pfx: "field_type_prefix (skip_spaces f) = (0, False)"
    using n1 n2 n3 n4 n3u n4u by (simp add: field_type_prefix_def)
  have tw: "type_words (field_words f) = 1"
  proof (cases "field_words f")
    case Nil
    then show ?thesis by simp
  next
    case (Cons w1 rest)
    show ?thesis
    proof (cases rest)
      case Nil
      with Cons show ?thesis by simp
    next
      case (Cons w2 rest')
      with \<open>field_words f = w1 # rest\<close>
      have ws: "strsep_all (skip_spaces f) CHR '' '' = w1 # w2 # rest'"
        by (simp add: field_words_def)
      from two_words_prefix[OF ws] n1 n2 n3 n4
      have "w1 \<noteq> ''unsigned''" "w1 \<noteq> ''struct''" "w1 \<noteq> ''__data_loc''" "w1 \<noteq> ''__rel_loc''"
        by auto
      with ws show ?thesis by (simp add: field_words_def)
    qed
  qed
  from ne pfx tw show ?thesis by (rule plain_tokens)
qed

lemma field_tokens_words:
  assumes "skip_spaces f \<noteq> []"
  shows "field_tokens f = words_result f"
proof -
  let ?F = "skip_spaces f"
  consider (u) "str_has_prefix ?F ''unsigned '' \<noteq> 0"
    | (s) "str_has_prefix ?F ''struct '' \<noteq> 0"
    | (du) "str_has_prefix ?F ''__data_loc unsigned '' \<noteq> 0"
    | (d) "str_has_prefix ?F ''__data_loc '' \<noteq> 0" "str_has_prefix ?F ''__data_loc unsigned '' = 0"
    | (ru) "str_has_prefix ?F ''__rel_loc unsigned '' \<noteq> 0"
    | (r) "str_has_prefix ?F ''__rel_loc '' \<noteq> 0" "str_has_prefix ?F ''__rel_loc unsigned '' = 0"
    | (p) "str_has_prefix ?F ''unsigned '' = 0" "str_has_prefix ?F ''struct '' = 0"
        "str_has_prefix ?F ''__data_loc '' = 0" "str_has_prefix ?F ''__rel_loc '' = 0"
    by blast
  then show ?thesis
  proof cases
    case u with assms show ?thesis by (rule tokens_unsigned)
  next
    case s with assms show ?thesis by (rule tokens_struct)
  next
    case du with assms show ?thesis by (rule tokens_data_loc_unsigned)
  next
    case d with assms show ?thesis by (rule tokens_data_loc)
  next
    case ru with assms show ?thesis by (rule tokens_rel_loc_unsigned)
  next
    case r with assms show ?thesis by (rule tokens_rel_loc)
  next
    case p with assms show ?thesis by (rule tokens_plain)
  qed
qed

lemma parse_field_parts_after:
  "parse_field_parts after st 1 ty None e0 =
     (case after of
        [] \<Rightarrow> Inr (1, ty, None, e0)
      | [nm] \<Rightarrow> Inr (2, ty, Some nm, e0)
      | nm # szt # extra \<Rightarrow>
          (if st then
             (case kstrtouint szt 10 of
                Inl _ \<Rightarrow> Inl (- EINVAL)
              | Inr v \<Rightarrow> if extra = [] then Inr (3, ty, Some nm, sint v) else Inl (- EINVAL))
           else Inl (- EINVAL)))"
proof (cases after)
  case Nil
  then show ?thesis by simp
next
  case (Cons nm rest)
  show ?thesis
  proof (cases rest)
    case Nil
    with Cons show ?thesis
      by (simp add: FIELD_DEPTH_TYPE_def FIELD_DEPTH_NAME_def)
  next
    case (Cons szt extra)
    with \<open>after = nm # rest\<close> show ?thesis
      by (cases extra)
         (simp_all add: FIELD_DEPTH_TYPE_def FIELD_DEPTH_NAME_def FIELD_DEPTH_SIZE_def
           split: sum.splits)
  qed
qed

lemma struct_type_field_type:
  assumes "struct_type f"
  shows "str_has_prefix (field_type f) ''struct '' \<noteq> 0"
proof -
  from assms obtain w2 ws where "field_words f = ''struct'' # w2 # ws"
    by (auto simp: struct_type_def split: list.splits)
  then have "field_type f = ''struct '' @ w2"
    by (simp add: field_type_def)
  then show ?thesis by (simp add: str_has_prefix_def)
qed

lemma array_not_struct: "array_type (field_type f) \<Longrightarrow> \<not> struct_type f"
proof
  assume a: "array_type (field_type f)" and "struct_type f"
  from has_prefix_append[OF struct_type_field_type[OF this(2)]]
  obtain r where "field_type f = ''struct '' @ r" by blast
  with a show False by (simp add: array_type_def str_has_prefix_def)
qed

lemma field_tokens_after:
  assumes "\<not> blank_field f"
  shows "field_tokens f =
     (case after_type f of
        [] \<Rightarrow> if 2 \<le> type_words (field_words f) then No_separator
              else Tokens 1 (field_type f) None (- EINVAL)
      | [nm] \<Rightarrow> Tokens 2 (field_type f) (Some nm) (- EINVAL)
      | nm # szt # extra \<Rightarrow>
          (if struct_type f \<and> extra = [] then
             (case kstrtouint szt 10 of
                Inl _ \<Rightarrow> Early_return (- EINVAL)
              | Inr v \<Rightarrow> Tokens 3 (field_type f) (Some nm) (sint v))
           else Early_return (- EINVAL)))"
proof -
  from assms have "field_tokens f = words_result f"
    by (simp add: blank_field_def field_tokens_words)
  also have "\<dots> =
     (if after_type f = [] \<and> 2 \<le> type_words (field_words f) then No_separator
      else tokens_of
        (case after_type f of
           [] \<Rightarrow> Inr (1, field_type f, None, - EINVAL)
         | [nm] \<Rightarrow> Inr (2, field_type f, Some nm, - EINVAL)
         | nm # szt # extra \<Rightarrow>
             (if struct_type f then
                (case kstrtouint szt 10 of
                   Inl _ \<Rightarrow> Inl (- EINVAL)
                 | Inr v \<Rightarrow> if extra = [] then Inr (3, field_type f, Some nm, sint v)
                           else Inl (- EINVAL))
              else Inl (- EINVAL))))"
    by (simp only: words_result_def parse_field_parts_after)
  also have "\<dots> =
     (case after_type f of
        [] \<Rightarrow> if 2 \<le> type_words (field_words f) then No_separator
              else Tokens 1 (field_type f) None (- EINVAL)
      | [nm] \<Rightarrow> Tokens 2 (field_type f) (Some nm) (- EINVAL)
      | nm # szt # extra \<Rightarrow>
          (if struct_type f \<and> extra = [] then
             (case kstrtouint szt 10 of
                Inl _ \<Rightarrow> Early_return (- EINVAL)
              | Inr v \<Rightarrow> Tokens 3 (field_type f) (Some nm) (sint v))
           else Early_return (- EINVAL)))"
    by (simp add: tokens_of_def split: list.splits sum.splits)
  finally show ?thesis .
qed

text \<open>The outcome of parsing one field, read from its words.\<close>

lemma user_event_parse_field_words:
  assumes ne: "\<not> blank_field f"
    and p: "user_event_parse_field hdr f user off km = (ret, user', off', km')"
  shows "(after_type f = [] \<longrightarrow> ret = - EINVAL)
       \<and> (length (after_type f) = 1 \<and> user_field_size (field_type f) \<le> 0 \<longrightarrow> ret < 0)
       \<and> (2 \<le> length (after_type f) \<and> \<not> struct_type f \<longrightarrow> ret = - EINVAL)
       \<and> (3 \<le> length (after_type f) \<longrightarrow> ret = - EINVAL)
       \<and> (2 \<le> length (after_type f)
           \<and> (case kstrtouint (size_token f) 10 of Inl _ \<Rightarrow> True | Inr v \<Rightarrow> sint v \<le> 0)
          \<longrightarrow> ret < 0)"
proof -
  note t = field_tokens_after[OF ne]
  show ?thesis
  proof (cases "after_type f")
    case Nil
    with t p show ?thesis
      by (cases "2 \<le> type_words (field_words f)")
         (simp_all add: user_event_parse_field_def)
  next
    case (Cons nm rest)
    show ?thesis
    proof (cases rest)
      case Nil
      with Cons t have "field_tokens f = Tokens 2 (field_type f) (Some nm) (- EINVAL)"
        by simp
      with p Cons Nil show ?thesis
        by (auto simp: user_event_parse_field_def FIELD_DEPTH_SIZE_def EINVAL_def Let_def
            split: if_splits)
    next
      case c2: (Cons szt extra)
      have st: "size_token f = szt" using Cons c2 by (simp add: size_token_def)
      show ?thesis
      proof (cases "struct_type f \<and> extra = []")
        case False
        with Cons c2 t have "field_tokens f = Early_return (- EINVAL)"
          by simp
        with p Cons c2 False show ?thesis
          by (auto simp: user_event_parse_field_def EINVAL_def)
      next
        case True
        show ?thesis
        proof (cases "kstrtouint szt 10")
          case (Inl e)
          with True Cons c2 t have "field_tokens f = Early_return (- EINVAL)"
            by simp
          with p Cons c2 True show ?thesis
            by (simp add: user_event_parse_field_def EINVAL_def)
        next
          case (Inr v)
          with True Cons c2 t have "field_tokens f = Tokens 3 (field_type f) (Some nm) (sint v)"
            by simp
          with p Cons c2 True Inr st show ?thesis
            by (auto simp: user_event_parse_field_def FIELD_DEPTH_SIZE_def EINVAL_def Let_def
                split: if_splits)
        qed
      qed
    qed
  qed
qed

lemma defective_field_rejected:
  assumes d: "defective_field f"
    and p: "user_event_parse_field hdr f user off km = (ret, user', off', km')"
  shows "ret < 0"
proof -
  from d have ne: "\<not> blank_field f"
    by (auto simp: defective_field_def unknown_type_def absent_name_def zero_size_def
        oversized_array_def unreadable_size_def)
  note w = user_event_parse_field_words[OF ne p]
  let ?n = "length (after_type f)"
  have len: "?n = 0 \<or> ?n = 1 \<or> 2 \<le> ?n" by arith
  have bad_size: "ret < 0" if "user_field_size (field_type f) \<le> 0" "\<not> struct_type f"
    using w that len by (auto simp: EINVAL_def)
  from d consider (u) "unknown_type f" | (a) "absent_name f" | (z) "zero_size f"
    | (o) "oversized_array f" | (m) "unreadable_size f"
    by (auto simp: defective_field_def)
  then show ?thesis
  proof cases
    case u
    then have k: "user_field_size (field_type f) = - EINVAL"
      and s: "\<not> sized_struct f"
      by (simp_all add: unknown_type_def user_field_size_unknown)
    show ?thesis
    proof (cases "2 \<le> ?n")
      case True
      with s have "\<not> struct_type f" by (simp add: sized_struct_def)
      with True w show ?thesis by (simp add: EINVAL_def)
    next
      case False
      with len w k show ?thesis by (auto simp: EINVAL_def)
    qed
  next
    case a
    with w show ?thesis by (simp add: absent_name_def EINVAL_def)
  next
    case z
    then consider (arr) "array_type (field_type f)" "array_elems (field_type f) = Some 0"
      | (str) "sized_struct f" "kstrtouint (size_token f) 10 = Inr 0"
      by (auto simp: zero_size_def)
    then show ?thesis
    proof cases
      case arr
      then have "user_field_size (field_type f) = 0"
        by (simp add: user_field_size_array user_field_array_size_elems MAX_FIELD_ARRAY_SIZE_def)
      with arr(1) show ?thesis by (simp add: bad_size array_not_struct)
    next
      case str
      with w show ?thesis by (simp add: sized_struct_def)
    qed
  next
    case o
    then obtain k where "array_type (field_type f)" "array_elems (field_type f) = Some k"
      "MAX_FIELD_ARRAY_SIZE < k"
      by (auto simp: oversized_array_def split: option.splits)
    then have "user_field_size (field_type f) = - EINVAL" "\<not> struct_type f"
      by (simp_all add: user_field_size_array user_field_array_size_elems array_not_struct)
    then show ?thesis by (simp add: bad_size EINVAL_def)
  next
    case m
    then consider (arr) "array_type (field_type f)" "array_elems (field_type f) = None"
      | (tok) "2 \<le> ?n" "\<not> struct_type f \<or> 3 \<le> ?n
          \<or> (case kstrtouint (size_token f) 10 of Inl _ \<Rightarrow> True | Inr v \<Rightarrow> sint v < 0)"
      by (auto simp: unreadable_size_def)
    then show ?thesis
    proof cases
      case arr
      then have "user_field_size (field_type f) = - EINVAL" "\<not> struct_type f"
        by (simp_all add: user_field_size_array user_field_array_size_elems array_not_struct)
      then show ?thesis by (simp add: bad_size EINVAL_def)
    next
      case tok
      from tok(2) have "\<not> struct_type f \<or> 3 \<le> ?n
          \<or> (case kstrtouint (size_token f) 10 of Inl _ \<Rightarrow> True | Inr v \<Rightarrow> sint v \<le> 0)"
        by (auto split: sum.splits)
      with tok(1) w show ?thesis by (auto simp: EINVAL_def)
    qed
  qed
qed

lemma parse_fields_loop_defective:
  assumes "parse_fields_loop hdr (pre @ bad # post) user off km ret0 = (ret, user', km')"
    and "defective_field bad"
  shows "ret < 0
       \<and> parse_fields_loop hdr (pre @ [bad]) user off km ret0 = (ret, user', km')"
  using assms(1)
proof (induction pre arbitrary: user off km ret0)
  case Nil
  obtain r u off1 k where step: "user_event_parse_field hdr bad user off km = (r, u, off1, k)"
    by (cases "user_event_parse_field hdr bad user off km") auto
  from defective_field_rejected[OF assms(2) step] have "r < 0" .
  with Nil step show ?case by auto
next
  case (Cons f pre)
  obtain r u off1 k where step: "user_event_parse_field hdr f user off km = (r, u, off1, k)"
    by (cases "user_event_parse_field hdr f user off km") auto
  have rle: "r \<le> 0"
    using user_event_parse_field_result[OF step] by auto
  show ?case
  proof (cases "r = 0")
    case True
    with Cons.prems step
    have "parse_fields_loop hdr (pre @ bad # post) u off1 k r = (ret, user', km')"
      by simp
    from Cons.IH[OF this] True step show ?thesis by simp
  next
    case False
    with Cons.prems step rle show ?thesis by auto
  qed
qed

subsection \<open>The registry\<close>

lemma kfree_many_live [simp]: "live (kfree_many k km) = live km - int k"
  by (induction k arbitrary: km) simp_all

lemma put_user_live:
  "live (put_user user km)
     = live km - owned user - (case print_fmt user of None \<Rightarrow> 0 | Some _ \<Rightarrow> 1) - 1"
  by (simp add: put_user_def user_event_destroy_fields_def user_event_destroy_validators_def
      kfree_opt_def owned_def split: option.splits)

lemma user_event_create_print_fmt_result:
  assumes "user_event_create_print_fmt user km = (ret, user', km')"
  shows "(ret = - ENOMEM \<and> user' = user \<and> live km' = live km)
       \<or> (ret = 0 \<and> user' = user\<lparr>print_fmt := Some (user_event_set_print_fmt user)\<rparr>
           \<and> live km' = live km + 1)"
proof -
  obtain ok k where k: "kmalloc km = (ok, k)" by (cases "kmalloc km")
  with assms kmalloc_live[OF k] show ?thesis
    by (cases ok) (auto simp: user_event_create_print_fmt_def)
qed

lemma user_event_trace_register_result:
  assumes "user_event_trace_register sys n = (ret, sys')"
  shows "(ret \<noteq> 0 \<and> sys' = sys)
       \<or> (ret = 0 \<and> sys' = sys\<lparr>trace_events := n # trace_events sys,
                                  event_calls := n # event_calls sys\<rparr>)"
  using assms
  by (auto simp: user_event_trace_register_def user_event_set_call_visible_def Let_def
      ENODEV_def ENOMEM_def split: if_splits)

lemma user_event_parse_new:
  assumes "lookup_event (register_table sys) n = None"
    and "kmalloc (kmem sys) = (ok, km0)"
    and "user_event_parse_fields hdr (new_user_event n) args km0 = (ret1, user1, km1)"
    and "user_event_create_print_fmt user1 km1 = (ret2, user2, km2)"
    and "user_event_trace_register (sys\<lparr>kmem := km2\<rparr>) n = (ret3, sys3)"
  shows "user_event_parse hdr sys n args flags =
     (if \<not> ok then (- ENOMEM, sys\<lparr>kmem := km0\<rparr>)
      else if ret1 \<noteq> 0 then (ret1, sys\<lparr>kmem := put_user user1 km1\<rparr>)
      else if ret2 \<noteq> 0 then (ret2, sys\<lparr>kmem := put_user user2 km2\<rparr>)
      else if max_user_events sys \<le> current_user_events sys
        then (- EMFILE, sys\<lparr>kmem := put_user user2 km2\<rparr>)
      else if ret3 \<noteq> 0 then (ret3, sys3\<lparr>kmem := put_user user2 (kmem sys3)\<rparr>)
      else (0, sys3\<lparr>dyn_events := n # dyn_events sys3,
                    register_table := user2\<lparr>refcnt := 2\<rparr> # register_table sys3,
                    current_user_events := current_user_events sys3 + 1\<rparr>))"
  using assms
  by (simp add: user_event_parse_def find_user_event_def)

lemma owned_print_fmt [simp]: "owned (user\<lparr>print_fmt := p\<rparr>) = owned user"
  by (simp add: owned_def)

lemma user_event_parse_new_outcome:
  assumes new: "lookup_event (register_table sys) n = None"
    and k: "kmalloc (kmem sys) = (ok, km0)"
    and pf: "user_event_parse_fields hdr (new_user_event n) args km0 = (ret1, user1, km1)"
    and fmt: "user_event_create_print_fmt user1 km1 = (ret2, user2, km2)"
    and reg: "user_event_trace_register (sys\<lparr>kmem := km2\<rparr>) n = (ret3, sys3)"
  shows "(ok \<and> ret1 = 0 \<and> ret2 = 0 \<and> current_user_events sys < max_user_events sys \<and> ret3 = 0
          \<longrightarrow> user_event_parse hdr sys n args flags
               = (0, sys\<lparr>kmem := km2, trace_events := n # trace_events sys,
                          event_calls := n # event_calls sys,
                          dyn_events := n # dyn_events sys,
                          register_table := user2\<lparr>refcnt := 2\<rparr> # register_table sys,
                          current_user_events := current_user_events sys + 1\<rparr>)
              \<and> name user2 = n)
       \<and> (\<not> (ok \<and> ret1 = 0 \<and> ret2 = 0 \<and> current_user_events sys < max_user_events sys
               \<and> ret3 = 0)
          \<longrightarrow> fst (user_event_parse hdr sys n args flags) \<noteq> 0
              \<and> fst (user_event_parse hdr sys n args flags)
                 = (if \<not> ok then - ENOMEM else if ret1 \<noteq> 0 then ret1
                    else if ret2 \<noteq> 0 then ret2
                    else if max_user_events sys \<le> current_user_events sys then - EMFILE
                    else ret3)
              \<and> registry_unchanged sys (snd (user_event_parse hdr sys n args flags)))"
proof -
  note p = user_event_parse_new[OF new k pf fmt reg, of flags]
  note l0 = kmalloc_live[OF k]
  from user_event_parse_fields_layout[OF pf]
  have l1: "live km1 - owned user1 = live km0" and pn: "print_fmt user1 = None"
    and nm: "name user1 = n"
    by simp_all
  note f = user_event_create_print_fmt_result[OF fmt]
  note r = user_event_trace_register_result[OF reg]
  have n2: "name user2 = n"
    using f nm by auto
  have succ: "user_event_parse hdr sys n args flags
               = (0, sys\<lparr>kmem := km2, trace_events := n # trace_events sys,
                          event_calls := n # event_calls sys,
                          dyn_events := n # dyn_events sys,
                          register_table := user2\<lparr>refcnt := 2\<rparr> # register_table sys,
                          current_user_events := current_user_events sys + 1\<rparr>)"
    if "ok" "ret1 = 0" "ret2 = 0" "current_user_events sys < max_user_events sys" "ret3 = 0"
    using that p r by (auto simp: not_le[symmetric])
  have fail: "fst (user_event_parse hdr sys n args flags) \<noteq> 0
              \<and> fst (user_event_parse hdr sys n args flags)
                 = (if \<not> ok then - ENOMEM else if ret1 \<noteq> 0 then ret1
                    else if ret2 \<noteq> 0 then ret2
                    else if max_user_events sys \<le> current_user_events sys then - EMFILE
                    else ret3)
              \<and> registry_unchanged sys (snd (user_event_parse hdr sys n args flags))"
    if nok: "\<not> (ok \<and> ret1 = 0 \<and> ret2 = 0 \<and> current_user_events sys < max_user_events sys
               \<and> ret3 = 0)"
  proof (cases ok)
    case False
    with p l0 show ?thesis
      by (simp add: registry_unchanged_def ENOMEM_def)
  next
    case ok: True
    show ?thesis
    proof (cases "ret1 = 0")
      case False
      with p ok l0 l1 pn show ?thesis
        by (simp add: registry_unchanged_def put_user_live)
    next
      case r1: True
      show ?thesis
      proof (cases "ret2 = 0")
        case False
        with p ok r1 l0 l1 pn f show ?thesis
          by (auto simp: registry_unchanged_def put_user_live)
      next
        case r2: True
        with f have u2: "user2 = user1\<lparr>print_fmt := Some (user_event_set_print_fmt user1)\<rparr>"
          and l2: "live km2 = live km1 + 1"
          by (auto simp: ENOMEM_def)
        show ?thesis
        proof (cases "max_user_events sys \<le> current_user_events sys")
          case True
          with p ok r1 r2 l0 l1 l2 u2 show ?thesis
            by (simp add: registry_unchanged_def put_user_live EMFILE_def)
        next
          case False
          with nok ok r1 r2 have r3: "ret3 \<noteq> 0" by auto
          with r have "sys3 = sys\<lparr>kmem := km2\<rparr>" by simp
          with p ok r1 r2 r3 False l0 l1 l2 u2 show ?thesis
            by (simp add: registry_unchanged_def put_user_live)
        qed
      qed
    qed
  qed
  from succ fail n2 show ?thesis by blast
qed

text \<open>
  \<^bold>\<open>C4.\<close>  Registering a name that is not in the table, with the intermediate results
  named: \<open>ok\<close> (the entity was allocated), \<open>ret1\<close> (field parsing), \<open>ret2\<close> (output
  format) and \<open>ret3\<close> (registration with the sinks).  The table changes only if all of
  them succeeded, and then the new event is at its head with reference count 2; if any
  of them fails the call fails, the table, the counters and the sink registrations are
  as before, and every object allocated on the way has been freed (\<open>live\<close> is
  unchanged).
\<close>

theorem registration_insert:
  assumes "lookup_event (register_table sys) n = None"
    and "kmalloc (kmem sys) = (ok, km0)"
    and "user_event_parse_fields hdr (new_user_event n) args km0 = (ret1, user1, km1)"
    and "user_event_create_print_fmt user1 km1 = (ret2, user2, km2)"
    and "user_event_trace_register (sys\<lparr>kmem := km2\<rparr>) n = (ret3, sys3)"
  shows "(register_table (snd (user_event_parse hdr sys n args flags)) \<noteq> register_table sys
          \<longrightarrow> ok \<and> ret1 = 0 \<and> ret2 = 0 \<and> ret3 = 0
              \<and> fst (user_event_parse hdr sys n args flags) = 0
              \<and> register_table (snd (user_event_parse hdr sys n args flags))
                 = user2\<lparr>refcnt := 2\<rparr> # register_table sys
              \<and> lookup_event (register_table (snd (user_event_parse hdr sys n args flags))) n
                 = Some (user2\<lparr>refcnt := 2\<rparr>))
       \<and> (\<not> ok \<or> ret1 \<noteq> 0 \<or> ret2 \<noteq> 0 \<or> ret3 \<noteq> 0
          \<longrightarrow> fst (user_event_parse hdr sys n args flags) \<noteq> 0
              \<and> registry_unchanged sys (snd (user_event_parse hdr sys n args flags)))
       \<and> (ok \<and> ret1 = 0 \<and> ret2 = 0 \<and> ret3 = 0
           \<and> current_user_events sys < max_user_events sys
          \<longrightarrow> fst (user_event_parse hdr sys n args flags) = 0
              \<and> register_table (snd (user_event_parse hdr sys n args flags))
                 = user2\<lparr>refcnt := 2\<rparr> # register_table sys)"
proof -
  note o = user_event_parse_new_outcome[OF assms, of flags]
  let ?all = "ok \<and> ret1 = 0 \<and> ret2 = 0 \<and> current_user_events sys < max_user_events sys
      \<and> ret3 = 0"
  show ?thesis
  proof (cases ?all)
    case True
    with o have "user_event_parse hdr sys n args flags
               = (0, sys\<lparr>kmem := km2, trace_events := n # trace_events sys,
                          event_calls := n # event_calls sys,
                          dyn_events := n # dyn_events sys,
                          register_table := user2\<lparr>refcnt := 2\<rparr> # register_table sys,
                          current_user_events := current_user_events sys + 1\<rparr>)"
      and "name user2 = n"
      by blast+
    with True show ?thesis by simp
  next
    case False
    with o have "fst (user_event_parse hdr sys n args flags) \<noteq> 0"
      and "registry_unchanged sys (snd (user_event_parse hdr sys n args flags))"
      by blast+
    with False show ?thesis
      by (auto simp: registry_unchanged_def)
  qed
qed

lemma sys0_alloc: "kmalloc (kmem sys0) = (True, \<lparr>live = 2, plan = []\<rparr>)"
  by (simp add: sys0_def kmalloc_def)

lemma sys0_fmt:
  "user_event_create_print_fmt
     ((new_user_event ''test'')\<lparr>fields' := rev (example_fields 8), min_size := 24\<rparr>)
     \<lparr>live = 4, plan = []\<rparr>
   = (0, (new_user_event ''test'')\<lparr>fields' := rev (example_fields 8), min_size := 24,
           print_fmt := Some (user_event_set_print_fmt
             ((new_user_event ''test'')\<lparr>fields' := rev (example_fields 8), min_size := 24\<rparr>))\<rparr>,
      \<lparr>live = 5, plan = []\<rparr>)"
  by (simp add: user_event_create_print_fmt_def kmalloc_def)

lemma sys0_reg:
  "user_event_trace_register (sys0\<lparr>kmem := \<lparr>live = 5, plan = []\<rparr>\<rparr>) ''test''
   = (0, sys0\<lparr>kmem := \<lparr>live = 5, plan = []\<rparr>, trace_events := [''test''],
               event_calls := [''test'']\<rparr>)"
  by (simp add: user_event_trace_register_def user_event_set_call_visible_def sys0_def)

theorem registration_insert_witness:
  "lookup_event (register_table sys0) ''test'' = None
   \<and> fst (user_event_parse 8 sys0 ''test'' (Some ''char[20] msg;unsigned int id'') None) = 0
   \<and> map refcnt (register_table
         (snd (user_event_parse 8 sys0 ''test'' (Some ''char[20] msg;unsigned int id'') None)))
       = [2]
   \<and> map name (register_table
         (snd (user_event_parse 8 sys0 ''test'' (Some ''char[20] msg;unsigned int id'') None)))
       = [''test'']"
proof -
  have new: "lookup_event (register_table sys0) ''test'' = None"
    by (simp add: sys0_def)
  have pf: "user_event_parse_fields 8 (new_user_event ''test'')
              (Some ''char[20] msg;unsigned int id'') \<lparr>live = 2, plan = []\<rparr>
            = (0, (new_user_event ''test'')\<lparr>fields' := rev (example_fields 8), min_size := 24\<rparr>,
               \<lparr>live = 4, plan = []\<rparr>)"
    using example_parse[of 8 2] by simp
  have cap: "current_user_events sys0 < max_user_events sys0"
    by (simp add: sys0_def initial_max_user_events_def)
  from registration_insert[OF new sys0_alloc pf sys0_fmt sys0_reg, of None] cap
  have "fst (user_event_parse 8 sys0 ''test'' (Some ''char[20] msg;unsigned int id'') None) = 0
      \<and> register_table
           (snd (user_event_parse 8 sys0 ''test'' (Some ''char[20] msg;unsigned int id'') None))
        = ((new_user_event ''test'')\<lparr>fields' := rev (example_fields 8), min_size := 24,
           print_fmt := Some (user_event_set_print_fmt
             ((new_user_event ''test'')\<lparr>fields' := rev (example_fields 8), min_size := 24\<rparr>))\<rparr>)
             \<lparr>refcnt := 2\<rparr> # register_table sys0"
    by blast
  with new show ?thesis
    by (simp add: sys0_def new_user_event_def)
qed

lemma lookup_event_name: "lookup_event t n = Some u \<Longrightarrow> name u = n"
  by (induction t) (auto split: if_splits)

lemma lookup_update_event_same:
  "lookup_event t n = Some u \<Longrightarrow> name (f u) = n \<Longrightarrow>
     lookup_event (update_event n f t) n = Some (f u)"
  by (induction t) auto

lemma lookup_update_event_other:
  "m \<noteq> n \<Longrightarrow> lookup_event (update_event n f t) m = lookup_event t m
     \<or> (\<exists>u. lookup_event t n = Some u \<and> name (f u) = m)"
  by (induction t) auto

lemma lookup_update_refcount_other:
  "m \<noteq> n \<Longrightarrow> lookup_event (update_event n refcount_inc t) m = lookup_event t m"
  by (induction t) (auto simp: refcount_inc_def)

text \<open>
  \<^bold>\<open>C6.\<close>  Registering a name that is already in the table returns success with the
  existing event, whose reference count has grown by one; the result is the same
  whatever field specification and flags are supplied, the event's fields, validators
  and minimum size are the stored ones, and no other event changes.
\<close>

theorem registration_existing:
  assumes "lookup_event (register_table sys) n = Some user"
  shows "user_event_parse hdr sys n args flags
           = (0, sys\<lparr>register_table := update_event n refcount_inc (register_table sys),
                      kmem := kfree (kmem sys)\<rparr>)
       \<and> user_event_parse hdr sys n args flags = user_event_parse hdr sys n args' flags'
       \<and> lookup_event (register_table (snd (user_event_parse hdr sys n args flags))) n
           = Some (user\<lparr>refcnt := refcnt user + 1\<rparr>)
       \<and> fields' (user\<lparr>refcnt := refcnt user + 1\<rparr>) = fields' user
       \<and> validators (user\<lparr>refcnt := refcnt user + 1\<rparr>) = validators user
       \<and> min_size (user\<lparr>refcnt := refcnt user + 1\<rparr>) = min_size user
       \<and> (\<forall>m. m \<noteq> n \<longrightarrow>
             lookup_event (register_table (snd (user_event_parse hdr sys n args flags))) m
               = lookup_event (register_table sys) m)"
proof -
  have p: "\<And>a f. user_event_parse hdr sys n a f
           = (0, sys\<lparr>register_table := update_event n refcount_inc (register_table sys),
                      kmem := kfree (kmem sys)\<rparr>)"
    using assms by (simp add: user_event_parse_def find_user_event_def)
  have "name user = n" using assms by (rule lookup_event_name)
  then have "lookup_event (update_event n refcount_inc (register_table sys)) n
      = Some (refcount_inc user)"
    using lookup_update_event_same[OF assms, of refcount_inc] by (simp add: refcount_inc_def)
  with p lookup_update_refcount_other[of _ n "register_table sys"] show ?thesis
    by (simp add: refcount_inc_def)
qed

theorem registration_existing_witness:
  "lookup_event (register_table sys1) ''test'' = Some stored_event
   \<and> user_event_parse 8 sys1 ''test'' (Some ''u64 other'') None
       = (0, sys1\<lparr>register_table := [stored_event\<lparr>refcnt := 3\<rparr>],
                   kmem := \<lparr>live = 4, plan = []\<rparr>\<rparr>)
   \<and> user_event_parse 8 sys1 ''test'' (Some ''u64 other'') None
       = user_event_parse 8 sys1 ''test'' (Some ''char[20] msg;unsigned int id'') None"
proof -
  have l: "lookup_event (register_table sys1) ''test'' = Some stored_event"
    by (simp add: sys1_def stored_event_def)
  have st: "sys1\<lparr>register_table := update_event ''test'' refcount_inc (register_table sys1),
                 kmem := kfree (kmem sys1)\<rparr>
            = sys1\<lparr>register_table := [stored_event\<lparr>refcnt := 3\<rparr>],
                   kmem := \<lparr>live = 4, plan = []\<rparr>\<rparr>"
    by (simp add: sys1_def sys0_def stored_event_def refcount_inc_def kfree_def)
  note t = registration_existing[OF l, of 8 "Some ''u64 other''" None
      "Some ''char[20] msg;unsigned int id''" None]
  from t have "user_event_parse 8 sys1 ''test'' (Some ''u64 other'') None
       = (0, sys1\<lparr>register_table := update_event ''test'' refcount_inc (register_table sys1),
                   kmem := kfree (kmem sys1)\<rparr>)"
    by (rule conjunct1)
  moreover from t have "user_event_parse 8 sys1 ''test'' (Some ''u64 other'') None
       = user_event_parse 8 sys1 ''test'' (Some ''char[20] msg;unsigned int id'') None"
    by (rule conjunct2[THEN conjunct1])
  ultimately show ?thesis
    using l st by (simp only: simp_thms)
qed

lemma defect_examples:
  "unknown_type ''float x''" "unknown_type ''struct s x''" "absent_name ''int''"
  "absent_name ''unsigned int''" "absent_name ''__data_loc unsigned x''"
  "zero_size ''char[0] x''" "zero_size ''struct s x 0''" "oversized_array ''char[1025] x''"
  "unreadable_size ''char[12 x''" "unreadable_size ''char[] x''"
  "unreadable_size ''char[10]junkjunk x''" "unreadable_size ''u32 x 4''"
  "unreadable_size ''struct s x 4 5''" "unreadable_size ''struct s x y''"
  "\<not> defective_field ''char[1024] x''" "\<not> defective_field ''struct s x 4''"
  "\<not> defective_field ''__rel_loc char[] msg''" "\<not> defective_field []"
  "\<not> defective_field ''int ''" "\<not> defective_field ''char[10]junk x''"
  by code_simp+

text \<open>
  The narrow classes lie inside the wide ones.
\<close>

lemma absent_name_missing: "absent_name f \<Longrightarrow> missing_name f"
  by (simp add: absent_name_def missing_name_def)

lemma unreadable_array_malformed:
  "\<not> blank_field f \<Longrightarrow> array_type (field_type f) \<Longrightarrow> array_elems (field_type f) = None
     \<Longrightarrow> malformed_array f"
  by (simp add: malformed_array_def)

text \<open>
  \<^bold>\<open>C7 (amended).\<close>  If the list of fields cut from the specification contains a
  defective field (an unknown type, no name token after the type, a size of zero, an
  array of more than 1024 elements, or an unreadable array or size token), then
  \<open>user_event_parse_fields\<close> returns a negative error and its result is that of the
  list cut off after that field, so the fields behind it are never looked at; and
  registering a new name with this specification fails with a negative error and leaves
  the table, the counters and the sink registrations as they were, with every field and
  validator built so far freed.
\<close>

theorem defective_field_list:
  assumes "strsep_all args CHR '';'' = pre @ bad # post"
    and "defective_field bad"
  shows "fst (user_event_parse_fields hdr user (Some args) km) < 0
       \<and> user_event_parse_fields hdr user (Some args) km
           = parse_fields_loop hdr (pre @ [bad]) user (of_nat hdr) km (- EINVAL)
       \<and> (lookup_event (register_table sys) n = None
          \<longrightarrow> fst (user_event_parse hdr sys n (Some args) flags) < 0
              \<and> registry_unchanged sys (snd (user_event_parse hdr sys n (Some args) flags)))"
proof -
  have fields: "fst (user_event_parse_fields hdr u (Some args) k) < 0
       \<and> user_event_parse_fields hdr u (Some args) k
           = parse_fields_loop hdr (pre @ [bad]) u (of_nat hdr) k (- EINVAL)" for u k
  proof -
    obtain r u' k' where l: "parse_fields_loop hdr (pre @ bad # post) u (of_nat hdr) k (- EINVAL)
        = (r, u', k')"
      by (cases "parse_fields_loop hdr (pre @ bad # post) u (of_nat hdr) k (- EINVAL)") auto
    from parse_fields_loop_defective[OF l assms(2)] l assms(1) show ?thesis
      by (simp add: user_event_parse_fields_def)
  qed
  have reg: "fst (user_event_parse hdr sys n (Some args) flags) < 0
      \<and> registry_unchanged sys (snd (user_event_parse hdr sys n (Some args) flags))"
    if new: "lookup_event (register_table sys) n = None"
  proof -
    obtain ok km0 where k: "kmalloc (kmem sys) = (ok, km0)"
      by (cases "kmalloc (kmem sys)")
    obtain ret1 user1 km1 where
      pf: "user_event_parse_fields hdr (new_user_event n) (Some args) km0 = (ret1, user1, km1)"
      by (cases "user_event_parse_fields hdr (new_user_event n) (Some args) km0") auto
    obtain ret2 user2 km2 where fmt: "user_event_create_print_fmt user1 km1 = (ret2, user2, km2)"
      by (cases "user_event_create_print_fmt user1 km1") auto
    obtain ret3 sys3 where reg: "user_event_trace_register (sys\<lparr>kmem := km2\<rparr>) n = (ret3, sys3)"
      by (cases "user_event_trace_register (sys\<lparr>kmem := km2\<rparr>) n")
    from fields[of "new_user_event n" km0] pf have r1: "ret1 < 0" by simp
    note o = user_event_parse_new_outcome[OF new k pf fmt reg, of flags]
    from r1 o have "fst (user_event_parse hdr sys n (Some args) flags)
        = (if \<not> ok then - ENOMEM else ret1)"
      and "registry_unchanged sys (snd (user_event_parse hdr sys n (Some args) flags))"
      by auto
    with r1 show ?thesis by (simp add: ENOMEM_def)
  qed
  from fields[of user km] reg show ?thesis by blast
qed

lemma c7_split:
  "strsep_all ''u32 a;char[2000] b;u64 c'' CHR '';'' = [''u32 a''] @ ''char[2000] b'' # [''u64 c'']"
  by code_simp

lemma c7_defect: "defective_field ''char[2000] b''"
  by code_simp

theorem defective_field_list_witness:
  "strsep_all ''u32 a;char[2000] b;u64 c'' CHR '';'' = [''u32 a''] @ ''char[2000] b'' # [''u64 c'']
   \<and> defective_field ''char[2000] b''
   \<and> lookup_event (register_table sys0) ''e'' = None
   \<and> fst (user_event_parse 8 sys0 ''e'' (Some ''u32 a;char[2000] b;u64 c'') None) < 0
   \<and> register_table (snd (user_event_parse 8 sys0 ''e'' (Some ''u32 a;char[2000] b;u64 c'') None))
       = []
   \<and> live (kmem (snd (user_event_parse 8 sys0 ''e'' (Some ''u32 a;char[2000] b;u64 c'') None)))
       = live (kmem sys0)"
proof -
  have new: "lookup_event (register_table sys0) ''e'' = None"
    by (simp add: sys0_def)
  from defective_field_list[OF c7_split c7_defect, of 8 "new_user_event ''e''" "kmem sys0"
      sys0 "''e''" None] new
  have "fst (user_event_parse 8 sys0 ''e'' (Some ''u32 a;char[2000] b;u64 c'') None) < 0
      \<and> registry_unchanged sys0
          (snd (user_event_parse 8 sys0 ''e'' (Some ''u32 a;char[2000] b;u64 c'') None))"
    by blast
  moreover have "register_table sys0 = []" by (simp add: sys0_def)
  ultimately show ?thesis
    using c7_split c7_defect new by (simp add: registry_unchanged_def)
qed

text \<open>
  With the wide classes the statement fails.  The field \<^verbatim>\<open>int \<close> has an empty name
  and \<^verbatim>\<open>char[10]junk b\<close> has text behind the closing bracket; a list that contains
  both is parsed to the end and registered, the second field with the empty name and the
  third with the type \<^verbatim>\<open>char[10]junk\<close> of size 10.
\<close>

theorem defective_field_accepted:
  "missing_name ''int '' \<and> malformed_array ''char[10]junk b''
   \<and> strsep_all ''u32 a;int ;char[10]junk b;u64 c'' CHR '';''
       = [''u32 a'', ''int '', ''char[10]junk b'', ''u64 c'']
   \<and> fst (user_event_parse 8 sys0 ''e'' (Some ''u32 a;int ;char[10]junk b;u64 c'') None) = 0
   \<and> map (\<lambda>u. (name u, map (\<lambda>f. (f_type f, f_name f, f_size f)) (rev (fields' u))))
         (register_table
            (snd (user_event_parse 8 sys0 ''e'' (Some ''u32 a;int ;char[10]junk b;u64 c'') None)))
       = [(''e'', [(''u32'', ''a'', 4), (''int'', [], 4), (''char[10]junk'', ''b'', 10),
                   (''u64'', ''c'', 8)])]"
  by code_simp
lemma find_then_put:
  "update_event n refcount_dec (update_event n refcount_inc t) = t"
  by (induction t) (auto simp: refcount_inc_def refcount_dec_def)

lemma hash_del_update_event:
  "name c = n \<Longrightarrow> hash_del n (update_event n (\<lambda>_. c) t) = hash_del n t"
  by (induction t) auto

lemma lookup_hash_del_same:
  "distinct (map name t) \<Longrightarrow> lookup_event (hash_del n t) n = None"
proof (induction t)
  case Nil
  then show ?case by simp
next
  case (Cons u t)
  have "lookup_event t n = None" if "name u = n"
    using Cons.prems that by (induction t) auto
  with Cons show ?case by auto
qed

lemma lookup_hash_del_other:
  "m \<noteq> n \<Longrightarrow> lookup_event (hash_del n t) m = lookup_event t m"
  by (induction t) auto

lemma delete_user_event_found:
  assumes "lookup_event (register_table sys) n = Some user"
  shows "delete_user_event sys n
           = (if user_event_last_ref user then destroy_user_event sys user else (- EBUSY, sys))"
  using assms
  by (simp add: delete_user_event_def find_user_event_def find_then_put)

lemma destroy_user_event_success:
  assumes "prepare_creds_ok sys" and "trace_remove_event_call_ret sys = 0" and "name user = n"
  shows "destroy_user_event sys user
           = (0, sys\<lparr>event_calls := remove1 n (event_calls sys),
                      dyn_events := remove1 n (dyn_events sys),
                      register_table := hash_del n (register_table sys),
                      kmem := kfree (kfree (kfree_opt (print_fmt user)
                                (kfree_many (length (validators user))
                                   (kfree_many (length (fields' user)) (kmem sys))))),
                      current_user_events :=
                        (if 0 < current_user_events sys then current_user_events sys - 1
                         else current_user_events sys)\<rparr>)"
  using assms
  by (simp add: destroy_user_event_def user_event_destroy_fields_def
      user_event_destroy_validators_def user_event_set_call_visible_def Let_def
      hash_del_update_event)

lemma destroy_user_event_failure:
  assumes "\<not> (prepare_creds_ok sys \<and> trace_remove_event_call_ret sys = 0)" and "name user = n"
  shows "destroy_user_event sys user
           = (if prepare_creds_ok sys then trace_remove_event_call_ret sys else - ENOMEM,
              sys\<lparr>register_table := update_event n (\<lambda>_. user\<lparr>fields' := []\<rparr>) (register_table sys),
                  kmem := kfree_many (length (fields' user)) (kmem sys)\<rparr>)"
  using assms
  by (auto simp: destroy_user_event_def user_event_destroy_fields_def
      user_event_set_call_visible_def Let_def ENOMEM_def)

text \<open>
  \<^bold>\<open>C5 (amended).\<close>  Deleting a name that is not in the table fails with \<open>-ENOENT\<close>.
  Deleting an event whose reference count is greater than 1 fails with \<open>-EBUSY\<close> and
  changes nothing, the reference count included.  Deleting an event with reference count
  1 succeeds when the call can be taken out of the event directory: the event is then
  unregistered from the sinks, removed from the table (no event of that name is left),
  its fields, validators, format, name and the event itself are freed, and the event
  count goes down by one.  When taking the call out fails, delete returns that error and
  the name stays in the table.
\<close>

theorem delete_event:
  "(lookup_event (register_table sys) n = None \<longrightarrow> delete_user_event sys n = (- ENOENT, sys))
   \<and> (\<forall>user. lookup_event (register_table sys) n = Some user \<and> 1 < refcnt user
        \<longrightarrow> delete_user_event sys n = (- EBUSY, sys))
   \<and> (\<forall>user. lookup_event (register_table sys) n = Some user \<and> refcnt user = 1
          \<and> prepare_creds_ok sys \<and> trace_remove_event_call_ret sys = 0
        \<longrightarrow> fst (delete_user_event sys n) = 0
            \<and> register_table (snd (delete_user_event sys n)) = hash_del n (register_table sys)
            \<and> (distinct (map name (register_table sys))
                \<longrightarrow> lookup_event (register_table (snd (delete_user_event sys n))) n = None)
            \<and> event_calls (snd (delete_user_event sys n)) = remove1 n (event_calls sys)
            \<and> dyn_events (snd (delete_user_event sys n)) = remove1 n (dyn_events sys)
            \<and> live (kmem (snd (delete_user_event sys n)))
               = live (kmem sys) - event_objects user
            \<and> current_user_events (snd (delete_user_event sys n))
               = (if 0 < current_user_events sys then current_user_events sys - 1
                  else current_user_events sys))
   \<and> (\<forall>user. lookup_event (register_table sys) n = Some user \<and> refcnt user = 1
          \<and> \<not> (prepare_creds_ok sys \<and> trace_remove_event_call_ret sys = 0)
        \<longrightarrow> fst (delete_user_event sys n)
              = (if prepare_creds_ok sys then trace_remove_event_call_ret sys else - ENOMEM)
            \<and> fst (delete_user_event sys n) \<noteq> 0
            \<and> lookup_event (register_table (snd (delete_user_event sys n))) n \<noteq> None
            \<and> event_calls (snd (delete_user_event sys n)) = event_calls sys
            \<and> current_user_events (snd (delete_user_event sys n)) = current_user_events sys)"
proof -
  have nf: "delete_user_event sys n = (- ENOENT, sys)"
    if "lookup_event (register_table sys) n = None"
    using that by (simp add: delete_user_event_def find_user_event_def)
  have busy: "delete_user_event sys n = (- EBUSY, sys)"
    if "lookup_event (register_table sys) n = Some user" "1 < refcnt user" for user
    using that delete_user_event_found[of sys n user]
    by (simp add: user_event_last_ref_def)
  have ok: "fst (delete_user_event sys n) = 0
            \<and> register_table (snd (delete_user_event sys n)) = hash_del n (register_table sys)
            \<and> (distinct (map name (register_table sys))
                \<longrightarrow> lookup_event (register_table (snd (delete_user_event sys n))) n = None)
            \<and> event_calls (snd (delete_user_event sys n)) = remove1 n (event_calls sys)
            \<and> dyn_events (snd (delete_user_event sys n)) = remove1 n (dyn_events sys)
            \<and> live (kmem (snd (delete_user_event sys n)))
               = live (kmem sys) - event_objects user
            \<and> current_user_events (snd (delete_user_event sys n))
               = (if 0 < current_user_events sys then current_user_events sys - 1
                  else current_user_events sys)"
    if l: "lookup_event (register_table sys) n = Some user" and r: "refcnt user = 1"
      and c: "prepare_creds_ok sys" "trace_remove_event_call_ret sys = 0" for user
  proof -
    have nm: "name user = n" using l by (rule lookup_event_name)
    have d: "delete_user_event sys n = destroy_user_event sys user"
      using delete_user_event_found[OF l] r by (simp add: user_event_last_ref_def)
    show ?thesis
      unfolding d destroy_user_event_success[OF c nm]
      by (simp add: lookup_hash_del_same event_objects_def owned_def kfree_opt_def
          split: option.splits)
  qed
  have fail: "fst (delete_user_event sys n)
              = (if prepare_creds_ok sys then trace_remove_event_call_ret sys else - ENOMEM)
            \<and> fst (delete_user_event sys n) \<noteq> 0
            \<and> lookup_event (register_table (snd (delete_user_event sys n))) n \<noteq> None
            \<and> event_calls (snd (delete_user_event sys n)) = event_calls sys
            \<and> current_user_events (snd (delete_user_event sys n)) = current_user_events sys"
    if l: "lookup_event (register_table sys) n = Some user" and r: "refcnt user = 1"
      and c: "\<not> (prepare_creds_ok sys \<and> trace_remove_event_call_ret sys = 0)" for user
  proof -
    have nm: "name user = n" using l by (rule lookup_event_name)
    have d: "delete_user_event sys n = destroy_user_event sys user"
      using delete_user_event_found[OF l] r by (simp add: user_event_last_ref_def)
    have "lookup_event (update_event n (\<lambda>_. user\<lparr>fields' := []\<rparr>) (register_table sys)) n
        = Some (user\<lparr>fields' := []\<rparr>)"
      using lookup_update_event_same[OF l, of "\<lambda>_. user\<lparr>fields' := []\<rparr>"] nm by simp
    then show ?thesis
      unfolding d destroy_user_event_failure[OF c nm]
      using c by (auto simp: ENOMEM_def)
  qed
  from nf busy ok fail show ?thesis by blast
qed

theorem delete_event_witness:
  "lookup_event (register_table sys_lone) ''none'' = None
   \<and> delete_user_event sys_lone ''none'' = (- ENOENT, sys_lone)
   \<and> lookup_event (register_table sys1) ''test'' = Some stored_event \<and> 1 < refcnt stored_event
   \<and> delete_user_event sys1 ''test'' = (- EBUSY, sys1)
   \<and> lookup_event (register_table sys_lone) ''test'' = Some lone_event \<and> refcnt lone_event = 1
   \<and> prepare_creds_ok sys_lone \<and> trace_remove_event_call_ret sys_lone = 0
   \<and> fst (delete_user_event sys_lone ''test'') = 0
   \<and> register_table (snd (delete_user_event sys_lone ''test'')) = []
   \<and> event_calls (snd (delete_user_event sys_lone ''test'')) = []
   \<and> live (kmem (snd (delete_user_event sys_lone ''test''))) = 1"
proof -
  have a: "lookup_event (register_table sys_lone) ''none'' = None"
    by (simp add: sys_lone_def sys1_def lone_event_def stored_event_def)
  have b: "lookup_event (register_table sys1) ''test'' = Some stored_event \<and> 1 < refcnt stored_event"
    by (simp add: sys1_def stored_event_def)
  have c: "lookup_event (register_table sys_lone) ''test'' = Some lone_event \<and> refcnt lone_event = 1
     \<and> prepare_creds_ok sys_lone \<and> trace_remove_event_call_ret sys_lone = 0"
    by (simp add: sys_lone_def sys1_def sys0_def lone_event_def stored_event_def)
  have t1: "delete_user_event sys_lone ''none'' = (- ENOENT, sys_lone)"
    using delete_event[of sys_lone "''none''"] a by blast
  have t2: "delete_user_event sys1 ''test'' = (- EBUSY, sys1)"
    using delete_event[of sys1 "''test''"] b by blast
  have t3: "fst (delete_user_event sys_lone ''test'') = 0
      \<and> register_table (snd (delete_user_event sys_lone ''test''))
         = hash_del ''test'' (register_table sys_lone)
      \<and> event_calls (snd (delete_user_event sys_lone ''test''))
         = remove1 ''test'' (event_calls sys_lone)
      \<and> live (kmem (snd (delete_user_event sys_lone ''test'')))
         = live (kmem sys_lone) - event_objects lone_event"
    using delete_event[of sys_lone "''test''"] c by blast
  have e: "hash_del ''test'' (register_table sys_lone) = []"
    "remove1 ''test'' (event_calls sys_lone) = []"
    "live (kmem sys_lone) - event_objects lone_event = 1"
    by (simp_all add: sys_lone_def sys1_def sys0_def lone_event_def stored_event_def
        event_objects_def owned_def example_fields_def)
  from a b c t1 t2 t3 e show ?thesis by simp
qed

text \<open>
  With reference count 1 the delete still fails when the credentials for taking the call
  out of the event directory cannot be allocated: the error is \<open>-ENOMEM\<close> and the event
  stays registered.
\<close>

theorem delete_event_may_fail:
  "lookup_event (register_table (sys_lone\<lparr>prepare_creds_ok := False\<rparr>)) ''test'' = Some lone_event
   \<and> refcnt lone_event = 1
   \<and> fst (delete_user_event (sys_lone\<lparr>prepare_creds_ok := False\<rparr>) ''test'') = - ENOMEM
   \<and> map name (register_table
        (snd (delete_user_event (sys_lone\<lparr>prepare_creds_ok := False\<rparr>) ''test''))) = [''test'']
   \<and> event_calls (snd (delete_user_event (sys_lone\<lparr>prepare_creds_ok := False\<rparr>) ''test''))
       = [''test'']"
  by code_simp

lemma construction_result_steps:
  assumes "kmalloc (kmem sys) = (ok, km0)"
    and "user_event_parse_fields hdr (new_user_event n) args km0 = (ret1, user1, km1)"
    and "user_event_create_print_fmt user1 km1 = (ret2, user2, km2)"
  shows "construction_result hdr sys n args
           = (if \<not> ok then - ENOMEM else if ret1 \<noteq> 0 then ret1 else ret2)"
  using assms by (simp add: construction_result_def)

lemma construction_result_le: "construction_result hdr sys n args \<le> 0"
proof -
  obtain ok km0 where k: "kmalloc (kmem sys) = (ok, km0)"
    by (cases "kmalloc (kmem sys)")
  obtain ret1 user1 km1 where
    pf: "user_event_parse_fields hdr (new_user_event n) args km0 = (ret1, user1, km1)"
    by (cases "user_event_parse_fields hdr (new_user_event n) args km0") auto
  obtain ret2 user2 km2 where fmt: "user_event_create_print_fmt user1 km1 = (ret2, user2, km2)"
    by (cases "user_event_create_print_fmt user1 km1") auto
  from user_event_parse_fields_layout[OF pf] have "ret1 \<le> 0" by simp
  moreover from user_event_create_print_fmt_result[OF fmt] have "ret2 \<le> 0"
    by (auto simp: ENOMEM_def)
  ultimately show ?thesis
    using construction_result_steps[OF k pf fmt] by (simp add: ENOMEM_def)
qed

text \<open>The counter follows the table: registration and deletion keep it exact.\<close>

lemma inc_unat: "(c :: 32 word) < m \<Longrightarrow> unat (c + 1) = unat c + 1"
proof -
  assume lt: "c < m"
  have "1 + c \<noteq> 0"
  proof
    assume "1 + c = 0"
    then have "c = - 1" by (simp add: add_eq_0_iff)
    with lt show False by simp
  qed
  from unatSuc[OF this] show ?thesis by (simp add: add.commute)
qed

lemma length_update_event [simp]: "length (update_event n f t) = length t"
  by (induction t) auto

lemma length_hash_del:
  "lookup_event t n = Some u \<Longrightarrow> length (hash_del n t) = length t - 1 \<and> 0 < length t"
  by (induction t) (auto split: if_splits)

lemma user_event_parse_live_events:
  assumes ce: "count_exact sys" and le: "live_events sys \<le> unat (max_user_events sys)"
  shows "count_exact (snd (user_event_parse hdr sys n args flags))
       \<and> live_events (snd (user_event_parse hdr sys n args flags))
           \<le> unat (max_user_events (snd (user_event_parse hdr sys n args flags)))
       \<and> max_user_events (snd (user_event_parse hdr sys n args flags)) = max_user_events sys"
proof (cases "lookup_event (register_table sys) n")
  case (Some u)
  with assms show ?thesis
    by (simp add: user_event_parse_def find_user_event_def count_exact_def live_events_def)
next
  case None
  obtain ok km0 where k: "kmalloc (kmem sys) = (ok, km0)"
    by (cases "kmalloc (kmem sys)")
  obtain ret1 user1 km1 where
    pf: "user_event_parse_fields hdr (new_user_event n) args km0 = (ret1, user1, km1)"
    by (cases "user_event_parse_fields hdr (new_user_event n) args km0") auto
  obtain ret2 user2 km2 where fmt: "user_event_create_print_fmt user1 km1 = (ret2, user2, km2)"
    by (cases "user_event_create_print_fmt user1 km1") auto
  obtain ret3 sys3 where reg: "user_event_trace_register (sys\<lparr>kmem := km2\<rparr>) n = (ret3, sys3)"
    by (cases "user_event_trace_register (sys\<lparr>kmem := km2\<rparr>) n")
  note o = user_event_parse_new_outcome[OF None k pf fmt reg, of flags]
  show ?thesis
  proof (cases "ok \<and> ret1 = 0 \<and> ret2 = 0 \<and> current_user_events sys < max_user_events sys
      \<and> ret3 = 0")
    case True
    then have lt: "unat (current_user_events sys) < unat (max_user_events sys)"
      by (simp add: word_less_nat_alt)
    moreover from True have "current_user_events sys < max_user_events sys" by simp
    then have "unat (current_user_events sys + 1) = unat (current_user_events sys) + 1"
      by (rule inc_unat)
    ultimately show ?thesis
      using o True ce by (simp add: count_exact_def live_events_def)
  next
    case False
    with o have "registry_unchanged sys (snd (user_event_parse hdr sys n args flags))"
      by blast
    with assms show ?thesis
      by (simp add: registry_unchanged_def count_exact_def live_events_def)
  qed
qed

lemma delete_user_event_live_events:
  assumes ce: "count_exact sys"
  shows "count_exact (snd (delete_user_event sys n))
       \<and> live_events (snd (delete_user_event sys n)) \<le> live_events sys
       \<and> max_user_events (snd (delete_user_event sys n)) = max_user_events sys"
proof (cases "lookup_event (register_table sys) n")
  case None
  with ce show ?thesis by (simp add: delete_user_event_def find_user_event_def)
next
  case (Some user)
  have nm: "name user = n" using Some by (rule lookup_event_name)
  note d = delete_user_event_found[OF Some]
  show ?thesis
  proof (cases "user_event_last_ref user")
    case False
    with d ce show ?thesis by simp
  next
    case True
    show ?thesis
    proof (cases "prepare_creds_ok sys \<and> trace_remove_event_call_ret sys = 0")
      case ok: True
      from length_hash_del[OF Some] ce
      have pos: "0 < current_user_events sys"
        and len: "length (hash_del n (register_table sys)) = length (register_table sys) - 1"
        by (auto simp: count_exact_def live_events_def word_greater_zero_iff unat_eq_zero)
      from pos have "unat (current_user_events sys - 1) = unat (current_user_events sys) - 1"
        by (simp add: unat_minus_one word_greater_zero_iff)
      with d True ok destroy_user_event_success[of sys user n] nm ce pos len show ?thesis
        by (simp add: count_exact_def live_events_def)
    next
      case bad: False
      with d True destroy_user_event_failure[OF bad nm] ce show ?thesis
        by (simp add: count_exact_def live_events_def)
    qed
  qed
qed

text \<open>
  \<^bold>\<open>C9 (amended).\<close>  While the number of registered events is at or above the limit,
  registering a name that is not yet in the table fails before the event is made visible
  or inserted: the table, the count, the sink registrations and the live allocations are
  unchanged.  The error is the resource-limit error \<open>-EMFILE\<close> when the entity could be
  built; when its allocation, the field parsing or the output format fails, that error
  is returned instead, since these steps come first.  The code tests the counter
  \<open>current_user_events\<close>; the counter is the number of events in the table in the
  empty registry, and registration and deletion keep it so.  No registration takes the
  number of events in the table beyond the limit, no deletion raises it, and the limit
  starts at 32768.
\<close>

theorem event_cap:
  "(lookup_event (register_table sys) n = None
      \<and> max_user_events sys \<le> current_user_events sys
    \<longrightarrow> fst (user_event_parse hdr sys n args flags) < 0
        \<and> fst (user_event_parse hdr sys n args flags)
           = (if construction_result hdr sys n args = 0 then - EMFILE
              else construction_result hdr sys n args)
        \<and> registry_unchanged sys (snd (user_event_parse hdr sys n args flags)))
   \<and> (lookup_event (register_table sys) n = None
      \<and> count_exact sys \<and> unat (max_user_events sys) \<le> live_events sys
    \<longrightarrow> fst (user_event_parse hdr sys n args flags) < 0
        \<and> fst (user_event_parse hdr sys n args flags)
           = (if construction_result hdr sys n args = 0 then - EMFILE
              else construction_result hdr sys n args)
        \<and> registry_unchanged sys (snd (user_event_parse hdr sys n args flags)))
   \<and> (count_exact sys \<and> live_events sys \<le> unat (max_user_events sys)
    \<longrightarrow> count_exact (snd (user_event_parse hdr sys n args flags))
        \<and> live_events (snd (user_event_parse hdr sys n args flags))
            \<le> unat (max_user_events (snd (user_event_parse hdr sys n args flags))))
   \<and> (count_exact sys
    \<longrightarrow> count_exact (snd (delete_user_event sys n))
        \<and> live_events (snd (delete_user_event sys n)) \<le> live_events sys
        \<and> max_user_events (snd (delete_user_event sys n)) = max_user_events sys)
   \<and> count_exact sys0 \<and> live_events sys0 = 0
   \<and> max_user_events sys0 = initial_max_user_events
   \<and> initial_max_user_events = 32768"
proof -
  have cap: "fst (user_event_parse hdr sys n args flags) < 0
        \<and> fst (user_event_parse hdr sys n args flags)
           = (if construction_result hdr sys n args = 0 then - EMFILE
              else construction_result hdr sys n args)
        \<and> registry_unchanged sys (snd (user_event_parse hdr sys n args flags))"
    if new: "lookup_event (register_table sys) n = None"
      and full: "max_user_events sys \<le> current_user_events sys"
  proof -
    obtain ok km0 where k: "kmalloc (kmem sys) = (ok, km0)"
      by (cases "kmalloc (kmem sys)")
    obtain ret1 user1 km1 where
      pf: "user_event_parse_fields hdr (new_user_event n) args km0 = (ret1, user1, km1)"
      by (cases "user_event_parse_fields hdr (new_user_event n) args km0") auto
    obtain ret2 user2 km2 where fmt: "user_event_create_print_fmt user1 km1 = (ret2, user2, km2)"
      by (cases "user_event_create_print_fmt user1 km1") auto
    obtain ret3 sys3 where reg: "user_event_trace_register (sys\<lparr>kmem := km2\<rparr>) n = (ret3, sys3)"
      by (cases "user_event_trace_register (sys\<lparr>kmem := km2\<rparr>) n")
    note o = user_event_parse_new_outcome[OF new k pf fmt reg, of flags]
    note c = construction_result_steps[OF k pf fmt]
    have nall: "\<not> (ok \<and> ret1 = 0 \<and> ret2 = 0 \<and> current_user_events sys < max_user_events sys
        \<and> ret3 = 0)"
      using full by auto
    with o have r: "fst (user_event_parse hdr sys n args flags)
                 = (if \<not> ok then - ENOMEM else if ret1 \<noteq> 0 then ret1
                    else if ret2 \<noteq> 0 then ret2
                    else if max_user_events sys \<le> current_user_events sys then - EMFILE
                    else ret3)"
      and u: "registry_unchanged sys (snd (user_event_parse hdr sys n args flags))"
      by blast+
    have e: "fst (user_event_parse hdr sys n args flags)
           = (if construction_result hdr sys n args = 0 then - EMFILE
              else construction_result hdr sys n args)"
      using r c full by (auto simp: ENOMEM_def)
    moreover have "fst (user_event_parse hdr sys n args flags) < 0"
      using e construction_result_le[of hdr sys n args] by (auto simp: EMFILE_def)
    ultimately show ?thesis using u by simp
  qed
  have cap2: "fst (user_event_parse hdr sys n args flags) < 0
        \<and> fst (user_event_parse hdr sys n args flags)
           = (if construction_result hdr sys n args = 0 then - EMFILE
              else construction_result hdr sys n args)
        \<and> registry_unchanged sys (snd (user_event_parse hdr sys n args flags))"
    if new: "lookup_event (register_table sys) n = None"
      and ce: "count_exact sys" and full: "unat (max_user_events sys) \<le> live_events sys"
  proof -
    from ce full have "max_user_events sys \<le> current_user_events sys"
      by (simp add: count_exact_def word_le_nat_alt)
    with new show ?thesis by (rule cap)
  qed
  have reg: "count_exact (snd (user_event_parse hdr sys n args flags))
        \<and> live_events (snd (user_event_parse hdr sys n args flags))
            \<le> unat (max_user_events (snd (user_event_parse hdr sys n args flags)))"
    if "count_exact sys" "live_events sys \<le> unat (max_user_events sys)"
    using user_event_parse_live_events[OF that, of hdr n args flags] by blast
  have del: "count_exact (snd (delete_user_event sys n))
        \<and> live_events (snd (delete_user_event sys n)) \<le> live_events sys
        \<and> max_user_events (snd (delete_user_event sys n)) = max_user_events sys"
    if "count_exact sys"
    using that by (rule delete_user_event_live_events)
  have init: "count_exact sys0" "live_events sys0 = 0"
    "max_user_events sys0 = initial_max_user_events"
    by (simp_all add: count_exact_def live_events_def sys0_def)
  have im: "initial_max_user_events = 32768"
    by (simp add: initial_max_user_events_def)
  show ?thesis
    by (intro conjI allI impI; (elim conjE)?)
       (insert cap cap2 reg del init im, simp_all)
qed

lemma full_sys_construction: "construction_result 8 full_sys ''b'' (Some ''u32 x'') = 0"
  by code_simp

theorem event_cap_witness:
  "lookup_event (register_table full_sys) ''b'' = None
   \<and> max_user_events full_sys \<le> current_user_events full_sys
   \<and> count_exact full_sys \<and> unat (max_user_events full_sys) \<le> live_events full_sys
   \<and> fst (user_event_parse 8 full_sys ''b'' (Some ''u32 x'') None) = - EMFILE
   \<and> register_table (snd (user_event_parse 8 full_sys ''b'' (Some ''u32 x'') None))
       = register_table full_sys
   \<and> live_events (snd (user_event_parse 8 full_sys ''b'' (Some ''u32 x'') None)) \<le> 1
   \<and> count_exact (snd (delete_user_event full_sys ''b''))"
proof -
  have new: "lookup_event (register_table full_sys) ''b'' = None"
    by (simp add: full_sys_def sys1_def stored_event_def)
  have full: "max_user_events full_sys \<le> current_user_events full_sys"
    by (simp add: full_sys_def sys1_def)
  have ce: "count_exact full_sys"
    by (simp add: count_exact_def live_events_def full_sys_def sys1_def)
  have le: "unat (max_user_events full_sys) \<le> live_events full_sys"
    "live_events full_sys \<le> unat (max_user_events full_sys)"
    by (simp_all add: live_events_def full_sys_def sys1_def)
  note t = event_cap[of full_sys "''b''" 8 "Some ''u32 x''" None]
  from t new full have "fst (user_event_parse 8 full_sys ''b'' (Some ''u32 x'') None)
           = (if construction_result 8 full_sys ''b'' (Some ''u32 x'') = 0 then - EMFILE
              else construction_result 8 full_sys ''b'' (Some ''u32 x''))
        \<and> registry_unchanged full_sys (snd (user_event_parse 8 full_sys ''b'' (Some ''u32 x'') None))"
    by simp
  moreover from t ce le
  have "live_events (snd (user_event_parse 8 full_sys ''b'' (Some ''u32 x'') None))
            \<le> unat (max_user_events (snd (user_event_parse 8 full_sys ''b'' (Some ''u32 x'') None)))"
    by simp
  moreover from t ce have "count_exact (snd (delete_user_event full_sys ''b''))"
    by simp
  moreover have "max_user_events full_sys = 1" by (simp add: full_sys_def)
  ultimately show ?thesis
    using new full ce le full_sys_construction
    by (simp add: registry_unchanged_def)
qed

theorem event_cap_parse_error_first:
  "lookup_event (register_table full_sys) ''b'' = None
   \<and> max_user_events full_sys \<le> current_user_events full_sys
   \<and> fst (user_event_parse 8 full_sys ''b'' (Some ''bogus x'') None) = - EINVAL
   \<and> fst (user_event_parse 8 full_sys ''b'' (Some ''bogus x'') None) \<noteq> - EMFILE"
  by code_simp

subsection \<open>The register operation\<close>

lemma descriptor_readable_copy:
  "descriptor_readable m um =
     (\<not> size_faults um \<and> announced_size um \<le> page_size m
      \<and> copy_struct_from_user sizeof_user_reg um (announced_size um) = 0)"
  by (auto simp: descriptor_readable_def copy_struct_from_user_def EFAULT_def E2BIG_def)

lemma user_reg_get_readable:
  assumes "descriptor_readable m um"
  shows "user_reg_get m um
           = (if announced_size um < offsetofend_write_index
                 \<or> descriptor_violation m (content um) then Inl (- EINVAL)
              else if access_ok m (enable_addr (content um)) (enable_size (content um))
                then Inr (content um)
              else Inl (- EFAULT))"
proof -
  have "(content um)\<lparr>reg_size := word_of_nat (unat (reg_size (content um)))\<rparr> = content um"
    by simp
  with assms show ?thesis
    by (auto simp: user_reg_get_def descriptor_readable_copy announced_size_def
        descriptor_violation_def Let_def BITS_PER_BYTE_def)
qed

lemma user_reg_get_unreadable:
  assumes "\<not> descriptor_readable m um"
  shows "user_reg_get m um
           = (if size_faults um then Inl (- EFAULT)
              else if page_size m < announced_size um then Inl (- E2BIG)
              else if announced_size um < offsetofend_write_index then Inl (- EINVAL)
              else if sizeof_user_reg < announced_size um \<and> tail_faults um then Inl (- EFAULT)
              else if sizeof_user_reg < announced_size um \<and> \<not> tail_zero um then Inl (- E2BIG)
              else Inl (- EFAULT))"
  using assms
  by (auto simp: user_reg_get_def descriptor_readable_def announced_size_def Let_def
      copy_struct_from_user_def EFAULT_def E2BIG_def)

text \<open>
  \<^bold>\<open>C10 (amended).\<close>  The descriptor is validated before anything else happens: whenever
  \<open>user_reg_get\<close> fails, the register operation returns its error and the registry, the
  file's references, the process state and the caller's memory are unchanged.  The
  result of the validation is determined in every case: an unreadable size field is a
  fault; an announced size beyond a page is the too-big error; an announced size that
  ends before \<open>write_index\<close> is \<open>-EINVAL\<close>; unreadable bytes beyond the kernel's
  structure are a fault, and readable ones that are not all zero the too-big error; an
  unreadable structure is a fault; a descriptor that can be read in and violates a
  requirement (enable size 4, or 8 with 64-bit longs; address a multiple of the size; bit
  at most size times 8 minus 1; flags zero) is \<open>-EINVAL\<close>; a descriptor without
  violation whose enable address is not accessible is a fault; and every other descriptor
  is accepted as it was read.
\<close>

theorem register_descriptor:
  "(\<forall>e. user_reg_get m um = Inl e
      \<longrightarrow> user_events_ioctl_reg hdr m strndup create sys info proc um = (e, sys, info, proc, um))
   \<and> (size_faults um \<longrightarrow> user_reg_get m um = Inl (- EFAULT))
   \<and> (\<not> size_faults um \<and> page_size m < announced_size um
      \<longrightarrow> user_reg_get m um = Inl (- E2BIG))
   \<and> (\<not> size_faults um \<and> announced_size um \<le> page_size m
       \<and> announced_size um < offsetofend_write_index
      \<longrightarrow> user_reg_get m um = Inl (- EINVAL))
   \<and> (\<not> size_faults um \<and> announced_size um \<le> page_size m
       \<and> sizeof_user_reg < announced_size um \<and> tail_faults um
      \<longrightarrow> user_reg_get m um = Inl (- EFAULT))
   \<and> (\<not> size_faults um \<and> announced_size um \<le> page_size m
       \<and> sizeof_user_reg < announced_size um \<and> \<not> tail_faults um \<and> \<not> tail_zero um
      \<longrightarrow> user_reg_get m um = Inl (- E2BIG))
   \<and> (\<not> size_faults um \<and> announced_size um \<le> page_size m
       \<and> offsetofend_write_index \<le> announced_size um
       \<and> (sizeof_user_reg < announced_size um \<longrightarrow> \<not> tail_faults um \<and> tail_zero um)
       \<and> copy_faults um
      \<longrightarrow> user_reg_get m um = Inl (- EFAULT))
   \<and> (descriptor_readable m um \<and> descriptor_violation m (content um)
      \<longrightarrow> user_reg_get m um = Inl (- EINVAL))
   \<and> (descriptor_readable m um \<and> \<not> descriptor_violation m (content um)
       \<and> offsetofend_write_index \<le> announced_size um
       \<and> \<not> access_ok m (enable_addr (content um)) (enable_size (content um))
      \<longrightarrow> user_reg_get m um = Inl (- EFAULT))
   \<and> (descriptor_readable m um \<and> \<not> descriptor_violation m (content um)
       \<and> offsetofend_write_index \<le> announced_size um
       \<and> access_ok m (enable_addr (content um)) (enable_size (content um))
      \<longrightarrow> user_reg_get m um = Inr (content um))"
proof -
  have a: "user_events_ioctl_reg hdr m strndup create sys info proc um = (e, sys, info, proc, um)"
    if "user_reg_get m um = Inl e" for e
    using that by (simp add: user_events_ioctl_reg_def)
  have u: "user_reg_get m um
           = (if size_faults um then Inl (- EFAULT)
              else if page_size m < announced_size um then Inl (- E2BIG)
              else if announced_size um < offsetofend_write_index then Inl (- EINVAL)
              else if sizeof_user_reg < announced_size um \<and> tail_faults um then Inl (- EFAULT)
              else if sizeof_user_reg < announced_size um \<and> \<not> tail_zero um then Inl (- E2BIG)
              else Inl (- EFAULT))"
    if "\<not> descriptor_readable m um"
    using that by (rule user_reg_get_unreadable)
  have b: "user_reg_get m um = Inl (- EFAULT)" if "size_faults um"
    using that u by (simp add: descriptor_readable_def)
  have c: "user_reg_get m um = Inl (- E2BIG)"
    if "\<not> size_faults um" "page_size m < announced_size um"
    using that u by (simp add: descriptor_readable_def)
  have d: "user_reg_get m um = Inl (- EINVAL)"
    if "\<not> size_faults um" "announced_size um \<le> page_size m"
      "announced_size um < offsetofend_write_index"
    using that u user_reg_get_readable[of m um]
    by (cases "descriptor_readable m um") simp_all
  have e: "user_reg_get m um = Inl (- EFAULT)"
    if "\<not> size_faults um" "announced_size um \<le> page_size m"
      "sizeof_user_reg < announced_size um" "tail_faults um"
    using that u
    by (simp add: descriptor_readable_def sizeof_user_reg_def offsetofend_write_index_def)
  have f: "user_reg_get m um = Inl (- E2BIG)"
    if "\<not> size_faults um" "announced_size um \<le> page_size m"
      "sizeof_user_reg < announced_size um" "\<not> tail_faults um" "\<not> tail_zero um"
    using that u
    by (simp add: descriptor_readable_def sizeof_user_reg_def offsetofend_write_index_def)
  have g: "user_reg_get m um = Inl (- EFAULT)"
    if "\<not> size_faults um" "announced_size um \<le> page_size m"
      "offsetofend_write_index \<le> announced_size um"
      "sizeof_user_reg < announced_size um \<longrightarrow> \<not> tail_faults um \<and> tail_zero um"
      "copy_faults um"
    using that u
    by (auto simp: descriptor_readable_def)
  have h: "user_reg_get m um = Inl (- EINVAL)"
    if "descriptor_readable m um" "descriptor_violation m (content um)"
    using that user_reg_get_readable[of m um] by simp
  have i: "user_reg_get m um = Inl (- EFAULT)"
    if "descriptor_readable m um" "\<not> descriptor_violation m (content um)"
      "offsetofend_write_index \<le> announced_size um"
      "\<not> access_ok m (enable_addr (content um)) (enable_size (content um))"
    using that user_reg_get_readable[of m um] by simp
  have j: "user_reg_get m um = Inr (content um)"
    if "descriptor_readable m um" "\<not> descriptor_violation m (content um)"
      "offsetofend_write_index \<le> announced_size um"
      "access_ok m (enable_addr (content um)) (enable_size (content um))"
    using that user_reg_get_readable[of m um] by simp
  show ?thesis
    by (intro conjI allI impI; (elim conjE)?) (rule a b c d e f g h i j; assumption)+
qed

theorem register_descriptor_witness:
  "descriptor_readable machine64 bad_flags \<and> descriptor_violation machine64 (content bad_flags)
   \<and> user_reg_get machine64 bad_flags = Inl (- EINVAL)
   \<and> user_events_ioctl_reg 8 machine64 (\<lambda>_ _. Inr ''test u32 x'')
        (\<lambda>_ _ s p. (True, 0, s, p)) sys0 \<lparr>refs = None\<rparr> () bad_flags
       = (- EINVAL, sys0, \<lparr>refs = None\<rparr>, (), bad_flags)"
proof -
  have r: "descriptor_readable machine64 bad_flags"
    by (simp add: descriptor_readable_def announced_size_def machine64_def bad_flags_def
        sizeof_user_reg_def)
  have v: "descriptor_violation machine64 (content bad_flags)"
    by (simp add: descriptor_violation_def bad_flags_def)
  note t = register_descriptor[of machine64 bad_flags 8 "\<lambda>_ _. Inr ''test u32 x''"
      "\<lambda>_ _ s p. (True, 0, s, p)" sys0 "\<lparr>refs = None\<rparr>" "()"]
  from t have t1: "\<forall>e. user_reg_get machine64 bad_flags = Inl e
      \<longrightarrow> user_events_ioctl_reg 8 machine64 (\<lambda>_ _. Inr ''test u32 x'')
            (\<lambda>_ _ s p. (True, 0, s, p)) sys0 \<lparr>refs = None\<rparr> () bad_flags
          = (e, sys0, \<lparr>refs = None\<rparr>, (), bad_flags)"
    by (rule conjunct1)
  from t have t8: "descriptor_readable machine64 bad_flags
      \<and> descriptor_violation machine64 (content bad_flags)
      \<longrightarrow> user_reg_get machine64 bad_flags = Inl (- EINVAL)"
    by (elim conjE)
  from t8 r v have g: "user_reg_get machine64 bad_flags = Inl (- EINVAL)"
    by simp
  with t1 have "user_events_ioctl_reg 8 machine64 (\<lambda>_ _. Inr ''test u32 x'')
        (\<lambda>_ _ s p. (True, 0, s, p)) sys0 \<lparr>refs = None\<rparr> () bad_flags
       = (- EINVAL, sys0, \<lparr>refs = None\<rparr>, (), bad_flags)"
    by simp
  with r v g show ?thesis by simp
qed

text \<open>
  A descriptor of 32 bytes (less than a page) with flags set and a non-zero byte beyond
  the kernel's structure: the violation is not answered with \<open>-EINVAL\<close> but with the
  too-big error.
\<close>

theorem register_descriptor_too_big_first:
  "descriptor_violation machine64 (content long_nonzero)
   \<and> \<not> size_faults long_nonzero
   \<and> unat (reg_size (content long_nonzero)) \<le> page_size machine64
   \<and> user_reg_get machine64 long_nonzero = Inl (- E2BIG)
   \<and> user_reg_get machine64 long_nonzero \<noteq> Inl (- EINVAL)"
  by (simp add: descriptor_violation_def long_nonzero_def bad_flags_def machine64_def
      user_reg_get_def copy_struct_from_user_def sizeof_user_reg_def offsetofend_write_index_def
      E2BIG_def EINVAL_def)
end
